theory Spec2Isabelle
  imports Complex_Main
begin

section \<open>Data model (types.ts)\<close>

text \<open>
  The program is a React component (GraphCanvas) and its host (App) that share JavaScript
  objects by reference: the force simulation writes into the very node and edge objects
  that the component keeps in its state. Objects therefore live in an explicit store and
  are named by addresses; an array of objects is a list of addresses.

  JavaScript numbers are modelled as reals: every property below is about which value is
  stored where, none about rounding.
\<close>

type_synonym addr = nat

datatype node_type = Class | Instance | Literal | Concept

text \<open>The pin fields are declared \<^verbatim>\<open>fx?: number | null\<close>: absent, null or a number.\<close>

datatype pin = PinUndefined | PinNull | PinAt real

text \<open>
  \<^verbatim>\<open>OntologyNode\<close>. An optional field is an \<open>option\<close>, \<open>None\<close> being
  JavaScript's \<^verbatim>\<open>undefined\<close>. Field \<open>n_f\<close> is the source's \<^verbatim>\<open>f\<close>.
\<close>

record ontology_node =
  n_id :: string
  n_label :: string
  n_type :: node_type
  n_description :: "string option"
  n_x :: "real option"
  n_y :: "real option"
  n_vx :: "real option"
  n_vy :: "real option"
  n_fx :: pin
  n_fy :: pin

text \<open>
  \<^verbatim>\<open>source: string | OntologyNode\<close>: an edge endpoint is either a node id or a
  reference to a node object.
\<close>

datatype endpoint = Str string | Obj addr

record ontology_edge =
  e_id :: string
  e_source :: endpoint
  e_target :: endpoint
  e_label :: string

text \<open>\<^verbatim>\<open>OntologyGraph\<close>: two arrays of object references.\<close>

record ontology_graph =
  nodes :: "addr list"
  edges :: "addr list"

subsection \<open>The object store\<close>

record heap =
  nodeObj :: "addr \<Rightarrow> ontology_node option"
  edgeObj :: "addr \<Rightarrow> ontology_edge option"
  nextAddr :: addr

text \<open>Reading an object through a reference. A reference held by the program is always
  to an allocated object.\<close>

definition node_of :: "heap \<Rightarrow> addr \<Rightarrow> ontology_node" where
  "node_of h a = the (nodeObj h a)"

definition edge_of :: "heap \<Rightarrow> addr \<Rightarrow> ontology_edge" where
  "edge_of h a = the (edgeObj h a)"

definition set_node :: "addr \<Rightarrow> ontology_node \<Rightarrow> heap \<Rightarrow> heap" where
  "set_node a n h = h\<lparr>nodeObj := (nodeObj h)(a \<mapsto> n)\<rparr>"

definition set_edge :: "addr \<Rightarrow> ontology_edge \<Rightarrow> heap \<Rightarrow> heap" where
  "set_edge a e h = h\<lparr>edgeObj := (edgeObj h)(a \<mapsto> e)\<rparr>"

definition alloc_node :: "heap \<Rightarrow> ontology_node \<Rightarrow> addr \<times> heap" where
  "alloc_node h n =
     (nextAddr h, h\<lparr>nodeObj := (nodeObj h)(nextAddr h \<mapsto> n), nextAddr := Suc (nextAddr h)\<rparr>)"

definition alloc_edge :: "heap \<Rightarrow> ontology_edge \<Rightarrow> addr \<times> heap" where
  "alloc_edge h e =
     (nextAddr h, h\<lparr>edgeObj := (edgeObj h)(nextAddr h \<mapsto> e), nextAddr := Suc (nextAddr h)\<rparr>)"

text \<open>Allocating an array of new objects.\<close>

fun alloc_nodes :: "heap \<Rightarrow> ontology_node list \<Rightarrow> addr list \<times> heap" where
  "alloc_nodes h [] = ([], h)"
| "alloc_nodes h (n # ns) =
     (let (a, h1) = alloc_node h n; (as, h2) = alloc_nodes h1 ns in (a # as, h2))"

fun alloc_edges :: "heap \<Rightarrow> ontology_edge list \<Rightarrow> addr list \<times> heap" where
  "alloc_edges h [] = ([], h)"
| "alloc_edges h (e # es) =
     (let (a, h1) = alloc_edge h e; (as, h2) = alloc_edges h1 es in (a # as, h2))"

text \<open>A thrown JavaScript \<^verbatim>\<open>Error\<close> with its message; a rejected promise carries one.\<close>

datatype error = Error string

text \<open>
  \<open>heap_extends h h'\<close>: every object of \<open>h\<close> is in \<open>h'\<close> as it was; \<open>h'\<close> may hold
  more objects.
\<close>

definition heap_extends :: "heap \<Rightarrow> heap \<Rightarrow> bool" where
  "heap_extends h h' \<longleftrightarrow>
     nextAddr h \<le> nextAddr h'
     \<and> (\<forall>a < nextAddr h. nodeObj h' a = nodeObj h a \<and> edgeObj h' a = edgeObj h a)"

text \<open>
  What it means that the edge at \<open>l'\<close> in \<open>h'\<close> is a deep copy of the edge at \<open>l\<close> in
  \<open>h0\<close>, made of objects at addresses from \<open>k\<close> on: the same id and label, an id
  endpoint the same string, an object endpoint a node object of its own with the same
  content.
\<close>

definition endpoint_copied :: "heap \<Rightarrow> addr \<Rightarrow> heap \<Rightarrow> endpoint \<Rightarrow> endpoint \<Rightarrow> bool" where
  "endpoint_copied h0 k h' p p' \<longleftrightarrow>
     (case p of
        Str s \<Rightarrow> p' = Str s
      | Obj a \<Rightarrow>
          (case p' of
             Str s \<Rightarrow> False
           | Obj a' \<Rightarrow> k \<le> a' \<and> a' < nextAddr h' \<and> nodeObj h' a' = Some (node_of h0 a)))"

definition edge_copied :: "heap \<Rightarrow> addr \<Rightarrow> heap \<Rightarrow> addr \<Rightarrow> addr \<Rightarrow> bool" where
  "edge_copied h0 k h' l l' \<longleftrightarrow>
     k \<le> l' \<and> l' < nextAddr h'
     \<and> (case edgeObj h' l' of
          None \<Rightarrow> False
        | Some e' \<Rightarrow>
            e_id e' = e_id (edge_of h0 l) \<and> e_label e' = e_label (edge_of h0 l)
            \<and> endpoint_copied h0 k h' (e_source (edge_of h0 l)) (e_source e')
            \<and> endpoint_copied h0 k h' (e_target (edge_of h0 l)) (e_target e'))"

text \<open>The id an endpoint denotes: the string itself, or the id of the referenced node
  (\<^verbatim>\<open>typeof e.source === 'object' ? e.source.id : e.source\<close>).\<close>

definition endpoint_id :: "heap \<Rightarrow> endpoint \<Rightarrow> string" where
  "endpoint_id h p = (case p of Str s \<Rightarrow> s | Obj a \<Rightarrow> n_id (node_of h a))"

fun is_plain_id :: "endpoint \<Rightarrow> bool" where
  "is_plain_id (Str s) = True"
| "is_plain_id (Obj a) = False"

section \<open>GraphCanvas: component state and the export accessor\<close>

text \<open>
  The d3 simulation object, as far as the component uses it: the node array it was given
  (\<^verbatim>\<open>simulation.nodes()\<close> returns that same array), the links of its link force, alpha,
  the alpha target, and whether its timer is running.
\<close>

record simulation =
  sim_nodes :: "addr list"
  sim_links :: "addr list"
  alpha :: real
  alphaTarget :: real
  running :: bool

text \<open>\<^verbatim>\<open>activeGraph\<close> (useState) and \<^verbatim>\<open>simulationRef.current\<close> (useRef, initially null).\<close>

record canvas =
  activeGraph :: ontology_graph
  simulationRef :: "simulation option"

text \<open>First render: \<^verbatim>\<open>useState<OntologyGraph>(graph)\<close>, \<^verbatim>\<open>useRef(null)\<close>.\<close>

definition mount :: "ontology_graph \<Rightarrow> canvas" where
  "mount g = \<lparr>activeGraph = g, simulationRef = None\<rparr>"

text \<open>\<^verbatim>\<open>getGraph\<close> (useImperativeHandle).\<close>

definition getGraph :: "canvas \<Rightarrow> ontology_graph" where
  "getGraph c =
     (case simulationRef c of
        Some sim \<Rightarrow> \<lparr>nodes = sim_nodes sim, edges = edges (activeGraph c)\<rparr>
      | None \<Rightarrow> activeGraph c)"

section \<open>GraphCanvas: reconciling a new snapshot\<close>

text \<open>
  \<^verbatim>\<open>JSON.parse(JSON.stringify(graph))\<close>: the snapshot is read as it is in the store \<open>h0\<close>,
  and every object of the copy is a new one. An endpoint that is a node object is
  written out in full and comes back as an object of its own.
\<close>

fun copy_endpoint :: "heap \<Rightarrow> heap \<Rightarrow> endpoint \<Rightarrow> endpoint \<times> heap" where
  "copy_endpoint h0 h (Str s) = (Str s, h)"
| "copy_endpoint h0 h (Obj a) = (let (a', h') = alloc_node h (node_of h0 a) in (Obj a', h'))"

definition copy_edge :: "heap \<Rightarrow> heap \<Rightarrow> addr \<Rightarrow> addr \<times> heap" where
  "copy_edge h0 h l =
     (let e = edge_of h0 l;
          (s, h1) = copy_endpoint h0 h (e_source e);
          (t, h2) = copy_endpoint h0 h1 (e_target e)
      in alloc_edge h2 (e\<lparr>e_source := s, e_target := t\<rparr>))"

fun copy_edges :: "heap \<Rightarrow> heap \<Rightarrow> addr list \<Rightarrow> addr list \<times> heap" where
  "copy_edges h0 h [] = ([], h)"
| "copy_edges h0 h (l # ls) =
     (let (l', h1) = copy_edge h0 h l; (ls', h2) = copy_edges h0 h1 ls in (l' # ls', h2))"

definition json_copy :: "heap \<Rightarrow> ontology_graph \<Rightarrow> ontology_graph \<times> heap" where
  "json_copy h g =
     (let (ns, h1) = alloc_nodes h (map (node_of h) (nodes g));
          (es, h2) = copy_edges h h1 (edges g)
      in (\<lparr>nodes = ns, edges = es\<rparr>, h2))"

text \<open>\<^verbatim>\<open>new Map(nodes.map(n => [n.id, n]))\<close>: a later entry replaces an earlier one with
  the same key.\<close>

definition nodes_by_id :: "heap \<Rightarrow> addr list \<Rightarrow> (string \<Rightarrow> addr option)" where
  "nodes_by_id h as = fold (\<lambda>a m. m(n_id (node_of h a) \<mapsto> a)) as (\<lambda>_. None)"

text \<open>The body of \<^verbatim>\<open>if (existing) { ... }\<close>: what the new node \<open>n\<close> takes from the
  existing one.\<close>

definition take_position :: "ontology_node \<Rightarrow> ontology_node \<Rightarrow> ontology_node" where
  "take_position existing n =
     (let n = n\<lparr>n_x := n_x existing\<rparr>;
          n = n\<lparr>n_y := n_y existing\<rparr>;
          n = (if n_vx existing \<noteq> None then n\<lparr>n_vx := n_vx existing\<rparr> else n);
          n = (if n_vy existing \<noteq> None then n\<lparr>n_vy := n_vy existing\<rparr> else n)
      in n)"

text \<open>The body of \<^verbatim>\<open>newGraphData.nodes.forEach\<close>, for the new node object at \<open>a\<close>.\<close>

definition copy_position :: "(string \<Rightarrow> addr option) \<Rightarrow> addr \<Rightarrow> heap \<Rightarrow> heap" where
  "copy_position currentNodesMap a h =
     (case currentNodesMap (n_id (node_of h a)) of
        None \<Rightarrow> h
      | Some ex \<Rightarrow> set_node a (take_position (node_of h ex) (node_of h a)) h)"

text \<open>
  The effect on \<^verbatim>\<open>[graph]\<close>, which the specification calls reconcile: \<open>g\<close> is the new
  \<^verbatim>\<open>graph\<close> prop; the old working copy is the node array of the current simulation.
\<close>

definition reconcile :: "ontology_graph \<Rightarrow> canvas \<Rightarrow> heap \<Rightarrow> canvas \<times> heap" where
  "reconcile g c h =
     (let (newGraphData, h1) = json_copy h g;
          h2 = (case simulationRef c of
                  None \<Rightarrow> h1
                | Some sim \<Rightarrow>
                    fold (copy_position (nodes_by_id h1 (sim_nodes sim))) (nodes newGraphData) h1)
      in (c\<lparr>activeGraph := newGraphData\<rparr>, h2))"

section \<open>The d3-force engine\<close>

text \<open>
  The component imports the simulation from the d3 library; its code is not part of the
  source tree. What the library computes numerically (the force model, the placement of
  new nodes, the decay rates) is a parameter. After the forces of a tick have been
  applied, \<open>forces alpha ns i\<close> is the position and velocity \<open>(x, y, vx, vy)\<close> of the
  i-th node: forces write geometry only.
\<close>

record engine =
  forces :: "real \<Rightarrow> ontology_node list \<Rightarrow> nat \<Rightarrow> real \<times> real \<times> real \<times> real"
  placement :: "nat \<Rightarrow> real \<times> real"
  alphaDecay :: real
  velocityDecay :: real

text \<open>
  Modelled from the spec: \<^verbatim>\<open>d3.forceSimulation(nodes)\<close> initialises the nodes it is given,
  in place. The specification has position "absent until first simulated" and lets the
  engine initialise what is unset; a pinned node is at its pin; velocity starts at rest.
\<close>

definition initialize_node :: "engine \<Rightarrow> nat \<Rightarrow> ontology_node \<Rightarrow> ontology_node" where
  "initialize_node eng i n =
     (let x = (case n_fx n of PinAt fx \<Rightarrow> Some fx | _ \<Rightarrow> n_x n);
          y = (case n_fy n of PinAt fy \<Rightarrow> Some fy | _ \<Rightarrow> n_y n);
          unplaced = (x = None \<or> y = None);
          at_rest = (n_vx n = None \<or> n_vy n = None)
      in n\<lparr>n_x := (if unplaced then Some (fst (placement eng i)) else x),
            n_y := (if unplaced then Some (snd (placement eng i)) else y),
            n_vx := (if at_rest then Some 0 else n_vx n),
            n_vy := (if at_rest then Some 0 else n_vy n)\<rparr>)"

definition initialize_nodes :: "engine \<Rightarrow> addr list \<Rightarrow> heap \<Rightarrow> heap" where
  "initialize_nodes eng as h =
     fold (\<lambda>(i, a) h. set_node a (initialize_node eng i (node_of h a)) h) (enumerate 0 as) h"

text \<open>
  Modelled from the spec: the link force (\<^verbatim>\<open>d3.forceLink(edges).id(d => d.id)\<close>) resolves
  each endpoint that is an id to the live node record with that id, in place and in edge
  order, source before target, and fails on an id that no node has ("the engine fails
  fast"); d3's message is \<^verbatim>\<open>node not found: \<close> followed by the id. An endpoint that is
  already an object is left as it is.
\<close>

fun resolve_endpoint :: "(string \<Rightarrow> addr option) \<Rightarrow> endpoint \<Rightarrow> error + endpoint" where
  "resolve_endpoint nodeById (Obj a) = Inr (Obj a)"
| "resolve_endpoint nodeById (Str s) =
     (case nodeById s of
        None \<Rightarrow> Inl (Error (''node not found: '' @ s))
      | Some a \<Rightarrow> Inr (Obj a))"

fun initialize_links :: "(string \<Rightarrow> addr option) \<Rightarrow> addr list \<Rightarrow> heap \<Rightarrow> error option \<times> heap"
  where
  "initialize_links nodeById [] h = (None, h)"
| "initialize_links nodeById (l # ls) h =
     (case resolve_endpoint nodeById (e_source (edge_of h l)) of
        Inl err \<Rightarrow> (Some err, h)
      | Inr s \<Rightarrow>
          let h1 = set_edge l ((edge_of h l)\<lparr>e_source := s\<rparr>) h in
          case resolve_endpoint nodeById (e_target (edge_of h1 l)) of
            Inl err \<Rightarrow> (Some err, h1)
          | Inr t \<Rightarrow> initialize_links nodeById ls (set_edge l ((edge_of h1 l)\<lparr>e_target := t\<rparr>) h1))"

text \<open>Modelled from the spec: \<^verbatim>\<open>simulation.alphaTarget(t)\<close>, \<^verbatim>\<open>simulation.restart()\<close> and
  \<^verbatim>\<open>simulation.stop()\<close> set the alpha target and start and halt the ticking.\<close>

definition set_alphaTarget :: "real \<Rightarrow> simulation \<Rightarrow> simulation" where
  "set_alphaTarget t sim = sim\<lparr>alphaTarget := t\<rparr>"

definition restart :: "simulation \<Rightarrow> simulation" where
  "restart sim = sim\<lparr>running := True\<rparr>"

definition stop :: "simulation \<Rightarrow> simulation" where
  "stop sim = sim\<lparr>running := False\<rparr>"

text \<open>
  Modelled from the spec: one tick. Alpha moves toward its target, the forces are
  applied, and each node is integrated: velocity decays and is added to the position,
  except along an axis on which the node is pinned, where "a pinned node's reported
  position is the pin value, not an integrated value" and the velocity is zero. A pin
  that is null or absent is no pin.
\<close>

definition integrate :: "engine \<Rightarrow> real \<times> real \<times> real \<times> real \<Rightarrow> ontology_node \<Rightarrow> ontology_node"
  where
  "integrate eng k n =
     (case k of (x, y, vx, vy) \<Rightarrow>
        let n = (case n_fx n of
                   PinAt fx \<Rightarrow> n\<lparr>n_x := Some fx, n_vx := Some 0\<rparr>
                 | _ \<Rightarrow> n\<lparr>n_x := Some (x + vx * velocityDecay eng),
                          n_vx := Some (vx * velocityDecay eng)\<rparr>)
        in (case n_fy n of
              PinAt fy \<Rightarrow> n\<lparr>n_y := Some fy, n_vy := Some 0\<rparr>
            | _ \<Rightarrow> n\<lparr>n_y := Some (y + vy * velocityDecay eng),
                     n_vy := Some (vy * velocityDecay eng)\<rparr>))"

definition tick :: "engine \<Rightarrow> simulation \<Rightarrow> heap \<Rightarrow> simulation \<times> heap" where
  "tick eng sim h =
     (let alpha' = alpha sim + (alphaTarget sim - alpha sim) * alphaDecay eng;
          ns = map (node_of h) (sim_nodes sim)
      in (sim\<lparr>alpha := alpha'\<rparr>,
          fold (\<lambda>(i, a) h. set_node a (integrate eng (forces eng alpha' ns i) (node_of h a)) h)
               (enumerate 0 (sim_nodes sim)) h))"

fun ticks :: "engine \<Rightarrow> nat \<Rightarrow> simulation \<Rightarrow> heap \<Rightarrow> simulation \<times> heap" where
  "ticks eng 0 sim h = (sim, h)"
| "ticks eng (Suc k) sim h = (let (sim1, h1) = tick eng sim h in ticks eng k sim1 h1)"

section \<open>GraphCanvas: the render effect\<close>

text \<open>
  The effect on \<^verbatim>\<open>[activeGraph]\<close>. \<open>attached\<close> says that the svg and wrapper elements
  exist. The simulation is created on the arrays of the working copy themselves, and the
  link force is added to it; an exception leaves the effect at that point, with what was
  written so far, before \<^verbatim>\<open>simulationRef.current\<close> is assigned.
\<close>

definition render_effect :: "bool \<Rightarrow> engine \<Rightarrow> canvas \<Rightarrow> heap \<Rightarrow> error option \<times> canvas \<times> heap"
  where
  "render_effect attached eng c h =
     (if \<not> attached then (None, c, h)
      else
        let g = activeGraph c;
            h1 = initialize_nodes eng (nodes g) h;
            (err, h2) = initialize_links (nodes_by_id h1 (nodes g)) (edges g) h1
        in case err of
             Some e \<Rightarrow> (Some e, c, h2)
           | None \<Rightarrow>
               (None,
                c\<lparr>simulationRef := Some \<lparr>sim_nodes = nodes g, sim_links = edges g, alpha = 1,
                                          alphaTarget = 0, running = True\<rparr>\<rparr>,
                h2))"

text \<open>The cleanup the effect returned: \<^verbatim>\<open>simulation.stop()\<close>. The reference keeps
  pointing to the stopped simulation.\<close>

definition effect_cleanup :: "canvas \<Rightarrow> canvas" where
  "effect_cleanup c = c\<lparr>simulationRef := map_option stop (simulationRef c)\<rparr>"

text \<open>
  A new \<^verbatim>\<open>graph\<close> prop arrives: the effect on \<^verbatim>\<open>[graph]\<close> sets the working copy, the
  component renders again, the previous render effect is cleaned up and the render
  effect runs on the new working copy.
\<close>

definition receive_graph ::
  "bool \<Rightarrow> engine \<Rightarrow> ontology_graph \<Rightarrow> canvas \<Rightarrow> heap \<Rightarrow> error option \<times> canvas \<times> heap" where
  "receive_graph attached eng g c h =
     (let (c1, h1) = reconcile g c h in render_effect attached eng (effect_cleanup c1) h1)"

section \<open>GraphCanvas: drag handlers\<close>

text \<open>The drag event: \<^verbatim>\<open>event.active\<close> (the number of other drag gestures in
  progress), \<^verbatim>\<open>event.x\<close> and \<^verbatim>\<open>event.y\<close>.\<close>

record drag_event =
  active :: nat
  ev_x :: real
  ev_y :: real

text \<open>Assigning a position (number or undefined) to a pin field.\<close>

definition pin_of :: "real option \<Rightarrow> pin" where
  "pin_of v = (case v of None \<Rightarrow> PinUndefined | Some r \<Rightarrow> PinAt r)"

definition dragstarted :: "drag_event \<Rightarrow> addr \<Rightarrow> simulation \<Rightarrow> heap \<Rightarrow> simulation \<times> heap" where
  "dragstarted event d sim h =
     (let sim = (if active event = 0 then restart (set_alphaTarget 0.3 sim) else sim);
          h = set_node d ((node_of h d)\<lparr>n_fx := pin_of (n_x (node_of h d))\<rparr>) h;
          h = set_node d ((node_of h d)\<lparr>n_fy := pin_of (n_y (node_of h d))\<rparr>) h
      in (sim, h))"

definition dragged :: "drag_event \<Rightarrow> addr \<Rightarrow> simulation \<Rightarrow> heap \<Rightarrow> simulation \<times> heap" where
  "dragged event d sim h =
     (let h = set_node d ((node_of h d)\<lparr>n_fx := PinAt (ev_x event)\<rparr>) h;
          h = set_node d ((node_of h d)\<lparr>n_fy := PinAt (ev_y event)\<rparr>) h
      in (sim, h))"

definition dragended :: "drag_event \<Rightarrow> addr \<Rightarrow> simulation \<Rightarrow> heap \<Rightarrow> simulation \<times> heap" where
  "dragended event d sim h =
     (let sim = (if active event = 0 then set_alphaTarget 0 sim else sim);
          h = set_node d ((node_of h d)\<lparr>n_fx := PinNull\<rparr>) h;
          h = set_node d ((node_of h d)\<lparr>n_fy := PinNull\<rparr>) h
      in (sim, h))"

section \<open>Click routing\<close>

text \<open>
  The callbacks the component was given, as the calls it makes on them. A click handler
  returns whether it called \<^verbatim>\<open>event.stopPropagation()\<close> and the calls it made, in
  order.
\<close>

datatype callback = NodeSelect "addr option" | EdgeSelect "addr option"

type_synonym click_handler = "bool \<times> callback list"

text \<open>The handler on an edge's line, bound to the edge object \<open>d\<close>.\<close>

definition edge_click :: "addr \<Rightarrow> click_handler" where
  "edge_click d = (True, [EdgeSelect (Some d), NodeSelect None])"

text \<open>The handler on a node's circle, bound to the node object \<open>d\<close>.\<close>

definition node_click :: "addr \<Rightarrow> click_handler" where
  "node_click d = (True, [NodeSelect (Some d), EdgeSelect None])"

text \<open>The handler on the svg element: background click deselects.\<close>

definition background_click :: click_handler where
  "background_click = (False, [NodeSelect None, EdgeSelect None])"

text \<open>
  A click event visits the handlers on the path from its target up to the svg element,
  until one of them stops propagation.
\<close>

fun dispatch :: "click_handler list \<Rightarrow> callback list" where
  "dispatch [] = []"
| "dispatch ((stopped, calls) # hs) = (if stopped then calls else calls @ dispatch hs)"

datatype click_target = OnEdgeLine addr | OnNodeCircle addr | OnCanvas

text \<open>Only the lines, the circles and the svg element carry click handlers; the labels
  have \<^verbatim>\<open>pointer-events: none\<close>.\<close>

fun click_path :: "click_target \<Rightarrow> click_handler list" where
  "click_path (OnEdgeLine d) = [edge_click d, background_click]"
| "click_path (OnNodeCircle d) = [node_click d, background_click]"
| "click_path OnCanvas = [background_click]"

definition click :: "click_target \<Rightarrow> callback list" where
  "click t = dispatch (click_path t)"

section \<open>App: host state\<close>

text \<open>
  The state cells of \<^verbatim>\<open>App\<close> (useState), and the alerts it has shown. A saved ontology
  is \<^verbatim>\<open>SavedOntology\<close>.
\<close>

record saved_ontology =
  s_id :: string
  s_name :: string
  s_timestamp :: nat
  s_data :: ontology_graph

record app =
  graph :: ontology_graph
  selectedNode :: "addr option"
  selectedEdge :: "addr option"
  isGenerating :: bool
  savedOntologies :: "saved_ontology list"
  alerts :: "string list"

text \<open>\<^verbatim>\<open>useState\<close> initial values.\<close>

definition initial_app :: app where
  "initial_app = \<lparr>graph = \<lparr>nodes = [], edges = []\<rparr>, selectedNode = None,
     selectedEdge = None, isGenerating = False, savedOntologies = [], alerts = []\<rparr>"

text \<open>The host passes \<^verbatim>\<open>setSelectedNode\<close> and \<^verbatim>\<open>setSelectedEdge\<close> as the two
  callbacks of the canvas.\<close>

fun run_callback :: "callback \<Rightarrow> app \<Rightarrow> app" where
  "run_callback (NodeSelect n) s = s\<lparr>selectedNode := n\<rparr>"
| "run_callback (EdgeSelect e) s = s\<lparr>selectedEdge := e\<rparr>"

definition on_click :: "click_target \<Rightarrow> app \<Rightarrow> app" where
  "on_click t s = fold run_callback (click t) s"

text \<open>Two callbacks "both non-None": a node selection and an edge selection among the
  calls of one click.\<close>

definition selects_node :: "callback list \<Rightarrow> bool" where
  "selects_node cs = (\<exists>c \<in> set cs. case c of NodeSelect (Some d) \<Rightarrow> True | _ \<Rightarrow> False)"

definition selects_edge :: "callback list \<Rightarrow> bool" where
  "selects_edge cs = (\<exists>c \<in> set cs. case c of EdgeSelect (Some d) \<Rightarrow> True | _ \<Rightarrow> False)"

section \<open>geminiService: generateOntology\<close>

text \<open>What the service does to the outside world, in order.\<close>

datatype effect = NewClient string | GenerateContent string | ConsoleError error

text \<open>An edge as the response schema describes it, before it is given an id.\<close>

record raw_edge =
  r_source :: string
  r_target :: string
  r_label :: string

text \<open>The parsed response: \<^verbatim>\<open>data.nodes\<close> and \<^verbatim>\<open>data.edges\<close>, each possibly absent.\<close>

record parsed =
  p_nodes :: "ontology_node list option"
  p_edges :: "raw_edge list option"

text \<open>
  The surroundings of the service: the environment variable \<^verbatim>\<open>process.env.API_KEY\<close>, the
  remote call (it rejects, or resolves to \<^verbatim>\<open>response.text\<close>, which may be undefined),
  \<^verbatim>\<open>JSON.parse\<close> followed by the property reads on its result (a syntax or type error, or
  the data), and the clock read for the i-th edge.
\<close>

record service_env =
  env_API_KEY :: "string option"
  generateContent :: "string \<Rightarrow> error + string option"
  json_parse :: "string \<Rightarrow> error + parsed"
  date_now :: "nat \<Rightarrow> nat"

text \<open>\<^verbatim>\<open>const apiKey = process.env.API_KEY || ''\<close>\<close>

definition apiKey :: "service_env \<Rightarrow> string" where
  "apiKey env = (case env_API_KEY env of None \<Rightarrow> [] | Some k \<Rightarrow> if k = [] then [] else k)"

fun show_nat :: "nat \<Rightarrow> string" where
  "show_nat n =
     (if n < 10 then [char_of (48 + n)] else show_nat (n div 10) @ [char_of (48 + n mod 10)])"

definition contents_of :: "string \<Rightarrow> string" where
  "contents_of prompt =
     ''Generate a detailed ontology graph for the topic: '' @ [CHR 0x22] @ prompt @ [CHR 0x22]
     @ ''. '' @ [CHR 0x0A]
     @ ''      Ensure the graph has a good mix of classes and instances/concepts. '' @ [CHR 0x0A]
     @ ''      Limit to about 15-25 nodes and appropriate relationships for a clear visualization.''"

definition missing_key_message :: string where
  "missing_key_message = ''API Key is missing. Please check your environment configuration.''"

text \<open>\<^verbatim>\<open>{...edge, id: `edge-${index}-${Date.now()}`}\<close>\<close>

definition edgeWithId :: "service_env \<Rightarrow> nat \<Rightarrow> raw_edge \<Rightarrow> ontology_edge" where
  "edgeWithId env index edge =
     \<lparr>e_id = ''edge-'' @ show_nat index @ ''-'' @ show_nat (date_now env index),
      e_source = Str (r_source edge), e_target = Str (r_target edge), e_label = r_label edge\<rparr>"

text \<open>
  \<^verbatim>\<open>generateOntology\<close>: the settled value of the promise (\<open>Inl\<close> when it rejects), the
  effects, and the store with the objects of the returned graph.
\<close>

definition generateOntology ::
  "service_env \<Rightarrow> heap \<Rightarrow> string \<Rightarrow> (error + ontology_graph) \<times> effect list \<times> heap" where
  "generateOntology env h prompt =
     (if apiKey env = [] then (Inl (Error missing_key_message), [], h)
      else
        let ai = [NewClient (apiKey env), GenerateContent (contents_of prompt)] in
        case generateContent env (contents_of prompt) of
          Inl err \<Rightarrow> (Inl err, ai @ [ConsoleError err], h)
        | Inr text \<Rightarrow>
            (if text = None \<or> text = Some []
             then (Inl (Error ''No response from AI''),
                   ai @ [ConsoleError (Error ''No response from AI'')], h)
             else
               case json_parse env (the text) of
                 Inl err \<Rightarrow> (Inl err, ai @ [ConsoleError err], h)
               | Inr data \<Rightarrow>
                   let raw = (case p_edges data of None \<Rightarrow> [] | Some es \<Rightarrow> es);
                       edgesWithIds = map (\<lambda>(index, edge). edgeWithId env index edge)
                                          (enumerate 0 raw);
                       (ns, h1) = alloc_nodes h (case p_nodes data of None \<Rightarrow> [] | Some ns \<Rightarrow> ns);
                       (es, h2) = alloc_edges h1 edgesWithIds
                   in (Inr \<lparr>nodes = ns, edges = es\<rparr>, ai, h2)))"

section \<open>App: handlers\<close>

definition generate_failed_message :: string where
  "generate_failed_message =
     ''Failed to generate ontology. Please try again or check your API key.''"

text \<open>
  \<^verbatim>\<open>handleGenerate\<close> is asynchronous: the part before the \<^verbatim>\<open>await\<close> runs at once, the
  rest when the promise has settled, on whatever the state is then.
\<close>

definition handleGenerate_start :: "app \<Rightarrow> app" where
  "handleGenerate_start s = s\<lparr>isGenerating := True, selectedNode := None, selectedEdge := None\<rparr>"

definition handleGenerate_settled :: "error + ontology_graph \<Rightarrow> app \<Rightarrow> app" where
  "handleGenerate_settled r s =
     (case r of
        Inr newGraph \<Rightarrow> s\<lparr>graph := newGraph\<rparr>
      | Inl err \<Rightarrow> s\<lparr>alerts := alerts s @ [generate_failed_message]\<rparr>)
     \<lparr>isGenerating := False\<rparr>"

definition handleGenerate ::
  "service_env \<Rightarrow> string \<Rightarrow> app \<Rightarrow> heap \<Rightarrow> app \<times> effect list \<times> heap" where
  "handleGenerate env prompt s h =
     (let (r, fx, h') = generateOntology env h prompt
      in (handleGenerate_settled r (handleGenerate_start s), fx, h'))"

text \<open>\<^verbatim>\<open>handleSave\<close>: the cleaned node, built from the destructured fields.\<close>

definition cleanNode :: "ontology_node \<Rightarrow> ontology_node" where
  "cleanNode n =
     (let node = \<lparr>n_id = n_id n, n_label = n_label n, n_type = n_type n,
                  n_description = n_description n, n_x = None, n_y = None,
                  n_vx = None, n_vy = None, n_fx = PinUndefined, n_fy = PinUndefined\<rparr>;
          node = (case n_x n of Some x \<Rightarrow> node\<lparr>n_x := Some x\<rparr> | None \<Rightarrow> node);
          node = (case n_y n of Some y \<Rightarrow> node\<lparr>n_y := Some y\<rparr> | None \<Rightarrow> node)
      in node)"

definition cleanEdge :: "heap \<Rightarrow> ontology_edge \<Rightarrow> ontology_edge" where
  "cleanEdge h e =
     \<lparr>e_id = e_id e,
      e_source = Str (case e_source e of Obj a \<Rightarrow> n_id (node_of h a) | Str s \<Rightarrow> s),
      e_target = Str (case e_target e of Obj a \<Rightarrow> n_id (node_of h a) | Str s \<Rightarrow> s),
      e_label = e_label e\<rparr>"

text \<open>
  \<^verbatim>\<open>handleSave\<close>. \<open>name\<close> is what the prompt dialog returned, \<open>t_id\<close> and \<open>t_stamp\<close>
  the two clock reads, \<open>graphRef\<close> the canvas handle if there is one. The new save's
  \<open>data\<close> is what \<^verbatim>\<open>JSON.stringify\<close> then writes to local storage.
\<close>

definition handleSave ::
  "string option \<Rightarrow> nat \<Rightarrow> nat \<Rightarrow> canvas option \<Rightarrow> app \<Rightarrow> heap \<Rightarrow> app \<times> heap" where
  "handleSave name t_id t_stamp graphRef s h =
     (if name = None \<or> name = Some [] then (s, h)
      else
        let currentGraph = (case graphRef of Some c \<Rightarrow> getGraph c | None \<Rightarrow> graph s);
            cleanNodes = map (\<lambda>a. cleanNode (node_of h a)) (nodes currentGraph);
            cleanEdges = map (\<lambda>a. cleanEdge h (edge_of h a)) (edges currentGraph);
            (ns, h1) = alloc_nodes h cleanNodes;
            (es, h2) = alloc_edges h1 cleanEdges;
            newSave = \<lparr>s_id = show_nat t_id, s_name = the name, s_timestamp = t_stamp,
                       s_data = \<lparr>nodes = ns, edges = es\<rparr>\<rparr>
        in (s\<lparr>savedOntologies := newSave # savedOntologies s,
              alerts := alerts s @ [''Ontology saved locally!'']\<rparr>, h2))"

section \<open>Example inputs\<close>

text \<open>A service environment without an API key; its remote call is never reached.\<close>

definition env_no_key :: service_env where
  "env_no_key = \<lparr>env_API_KEY = Some [], generateContent = (\<lambda>_. Inr None),
     json_parse = (\<lambda>_. Inl (Error ''unexpected token'')), date_now = (\<lambda>_. 0)\<rparr>"

text \<open>Two simulated nodes \<open>a\<close> and \<open>b\<close> at addresses 0 and 1, and the edge \<open>e1\<close> from
  \<open>a\<close> to \<open>b\<close> at address 2, its endpoints resolved to the node objects.\<close>

definition node_a :: ontology_node where
  "node_a = \<lparr>n_id = ''a'', n_label = ''A'', n_type = Class, n_description = None,
     n_x = Some 10, n_y = Some 20, n_vx = Some 1, n_vy = Some 2,
     n_fx = PinNull, n_fy = PinNull\<rparr>"

definition node_b :: ontology_node where
  "node_b = \<lparr>n_id = ''b'', n_label = ''B'', n_type = Instance, n_description = Some ''second'',
     n_x = Some 30, n_y = Some 40, n_vx = Some 0, n_vy = Some 0,
     n_fx = PinUndefined, n_fy = PinUndefined\<rparr>"

definition live_heap :: heap where
  "live_heap = \<lparr>nodeObj = [0 \<mapsto> node_a, 1 \<mapsto> node_b],
     edgeObj = [2 \<mapsto> \<lparr>e_id = ''e1'', e_source = Obj 0, e_target = Obj 1, e_label = ''is_a''\<rparr>],
     nextAddr = 3\<rparr>"

definition live_sim :: simulation where
  "live_sim = \<lparr>sim_nodes = [0, 1], sim_links = [2], alpha = 1, alphaTarget = 0,
     running = True\<rparr>"

definition live_canvas :: canvas where
  "live_canvas = \<lparr>activeGraph = \<lparr>nodes = [0, 1], edges = [2]\<rparr>,
     simulationRef = Some live_sim\<rparr>"

text \<open>An engine whose forces leave each node where it is and push it by one unit per
  tick along x.\<close>

definition num :: "real option \<Rightarrow> real" where
  "num v = (case v of None \<Rightarrow> 0 | Some r \<Rightarrow> r)"

definition demo_engine :: engine where
  "demo_engine = \<lparr>forces = (\<lambda>al ns i. (num (n_x (ns ! i)), num (n_y (ns ! i)),
                                         num (n_vx (ns ! i)) + 1, num (n_vy (ns ! i)))),
     placement = (\<lambda>i. (real i, 0)), alphaDecay = 1 / 50, velocityDecay = 3 / 5\<rparr>"

text \<open>A drag of node \<open>a\<close> to (100, 100), and the store after the drag-move handler.\<close>

definition drag_to_100 :: drag_event where
  "drag_to_100 = \<lparr>active = 0, ev_x = 100, ev_y = 100\<rparr>"

definition pinned_heap :: heap where
  "pinned_heap = snd (dragged drag_to_100 0 live_sim live_heap)"

text \<open>A freshly generated graph: nodes \<open>a\<close> and \<open>b\<close> without geometry and the edge
  \<open>e1\<close> from \<open>a\<close> to \<open>b\<close> by id. The canvas, mounted on the empty graph, receives it.\<close>

definition fresh_node :: "string \<Rightarrow> ontology_node" where
  "fresh_node i = \<lparr>n_id = i, n_label = i, n_type = Concept, n_description = None,
     n_x = None, n_y = None, n_vx = None, n_vy = None, n_fx = PinUndefined, n_fy = PinUndefined\<rparr>"

definition fresh_heap :: heap where
  "fresh_heap = \<lparr>nodeObj = [0 \<mapsto> fresh_node ''a'', 1 \<mapsto> fresh_node ''b''],
     edgeObj = [2 \<mapsto> \<lparr>e_id = ''e1'', e_source = Str ''a'', e_target = Str ''b'', e_label = ''is_a''\<rparr>],
     nextAddr = 3\<rparr>"

definition fresh_graph :: ontology_graph where
  "fresh_graph = \<lparr>nodes = [0, 1], edges = [2]\<rparr>"

definition fresh_result :: "error option \<times> canvas \<times> heap" where
  "fresh_result =
     receive_graph True demo_engine fresh_graph (mount \<lparr>nodes = [], edges = []\<rparr>) fresh_heap"

text \<open>The host's graph after an edit, next to the simulated objects: node \<open>a\<close> without
  geometry, a node \<open>c\<close> that carries a position, and the edge \<open>e2\<close> from \<open>a\<close> to \<open>c\<close>.\<close>

definition edited_heap :: heap where
  "edited_heap = \<lparr>nodeObj = [0 \<mapsto> node_a, 1 \<mapsto> node_b, 3 \<mapsto> fresh_node ''a'',
                              4 \<mapsto> (fresh_node ''c'')\<lparr>n_x := Some 7, n_y := Some 8\<rparr>],
     edgeObj = [2 \<mapsto> \<lparr>e_id = ''e1'', e_source = Obj 0, e_target = Obj 1, e_label = ''is_a''\<rparr>,
                5 \<mapsto> \<lparr>e_id = ''e2'', e_source = Str ''a'', e_target = Str ''c'', e_label = ''has''\<rparr>],
     nextAddr = 6\<rparr>"

definition edited_graph :: ontology_graph where
  "edited_graph = \<lparr>nodes = [3, 4], edges = [5]\<rparr>"

text \<open>The same, with an edge from \<open>a\<close> to an id \<open>z\<close> that no node has.\<close>

definition dangling_heap :: heap where
  "dangling_heap = \<lparr>nodeObj = [0 \<mapsto> node_a, 1 \<mapsto> node_b, 3 \<mapsto> fresh_node ''a'',
                                4 \<mapsto> fresh_node ''b''],
     edgeObj = [2 \<mapsto> \<lparr>e_id = ''e1'', e_source = Obj 0, e_target = Obj 1, e_label = ''is_a''\<rparr>,
                5 \<mapsto> \<lparr>e_id = ''e2'', e_source = Str ''a'', e_target = Str ''z'', e_label = ''has''\<rparr>],
     nextAddr = 6\<rparr>"

definition dangling_result :: "error option \<times> canvas \<times> heap" where
  "dangling_result = receive_graph True demo_engine edited_graph live_canvas dangling_heap"

section \<open>Results\<close>

subsection \<open>Allocation\<close>

lemma alloc_nodes_spec:
  "alloc_nodes h ns = (as, h') \<Longrightarrow>
     as = [nextAddr h ..< nextAddr h + length ns]
     \<and> nextAddr h' = nextAddr h + length ns
     \<and> edgeObj h' = edgeObj h
     \<and> (\<forall>a. nodeObj h' a =
           (if nextAddr h \<le> a \<and> a < nextAddr h + length ns
            then Some (ns ! (a - nextAddr h)) else nodeObj h a))"
proof (induction ns arbitrary: h as h')
  case Nil
  then show ?case by auto
next
  case (Cons n ns)
  define h1 where "h1 = snd (alloc_node h n)"
  obtain as1 h2 where r: "alloc_nodes h1 ns = (as1, h2)"
    by (cases "alloc_nodes h1 ns")
  from Cons.prems r have as: "as = nextAddr h # as1" and h': "h' = h2"
    by (auto simp: h1_def alloc_node_def Let_def split: prod.splits)
  have nx: "nextAddr h1 = Suc (nextAddr h)" and e1: "edgeObj h1 = edgeObj h"
    and n1: "nodeObj h1 = (nodeObj h)(nextAddr h \<mapsto> n)"
    by (simp_all add: h1_def alloc_node_def)
  from Cons.IH [OF r] have
    a1: "as1 = [Suc (nextAddr h) ..< Suc (nextAddr h) + length ns]"
    and a2: "nextAddr h2 = Suc (nextAddr h) + length ns"
    and a3: "edgeObj h2 = edgeObj h"
    and a4: "\<And>a. nodeObj h2 a =
           (if Suc (nextAddr h) \<le> a \<and> a < Suc (nextAddr h) + length ns
            then Some (ns ! (a - Suc (nextAddr h))) else nodeObj h1 a)"
    by (simp_all add: nx e1)
  have c1: "as = [nextAddr h ..< nextAddr h + length (n # ns)]"
  proof -
    have "[nextAddr h ..< nextAddr h + Suc (length ns)]
          = nextAddr h # [Suc (nextAddr h) ..< nextAddr h + Suc (length ns)]"
      by (rule upt_conv_Cons) simp
    moreover have "Suc (nextAddr h) + length ns = nextAddr h + Suc (length ns)" by simp
    ultimately show ?thesis unfolding as a1 by simp
  qed
  have c4: "nodeObj h' a =
           (if nextAddr h \<le> a \<and> a < nextAddr h + length (n # ns)
            then Some ((n # ns) ! (a - nextAddr h)) else nodeObj h a)" for a
  proof (cases "a = nextAddr h")
    case True
    then show ?thesis by (simp add: h' a4 n1)
  next
    case False
    then show ?thesis
      by (auto simp: h' a4 n1 nth_Cons' Suc_le_eq)
  qed
  show ?case
    using c1 c4 by (simp add: h' a2 a3)
qed

lemma alloc_edges_spec:
  "alloc_edges h es = (as, h') \<Longrightarrow>
     as = [nextAddr h ..< nextAddr h + length es]
     \<and> nextAddr h' = nextAddr h + length es
     \<and> nodeObj h' = nodeObj h
     \<and> (\<forall>a. edgeObj h' a =
           (if nextAddr h \<le> a \<and> a < nextAddr h + length es
            then Some (es ! (a - nextAddr h)) else edgeObj h a))"
proof (induction es arbitrary: h as h')
  case Nil
  then show ?case by auto
next
  case (Cons e es)
  define h1 where "h1 = snd (alloc_edge h e)"
  obtain as1 h2 where r: "alloc_edges h1 es = (as1, h2)"
    by (cases "alloc_edges h1 es")
  from Cons.prems r have as: "as = nextAddr h # as1" and h': "h' = h2"
    by (auto simp: h1_def alloc_edge_def Let_def split: prod.splits)
  have nx: "nextAddr h1 = Suc (nextAddr h)" and e1: "nodeObj h1 = nodeObj h"
    and n1: "edgeObj h1 = (edgeObj h)(nextAddr h \<mapsto> e)"
    by (simp_all add: h1_def alloc_edge_def)
  from Cons.IH [OF r] have
    a1: "as1 = [Suc (nextAddr h) ..< Suc (nextAddr h) + length es]"
    and a2: "nextAddr h2 = Suc (nextAddr h) + length es"
    and a3: "nodeObj h2 = nodeObj h"
    and a4: "\<And>a. edgeObj h2 a =
           (if Suc (nextAddr h) \<le> a \<and> a < Suc (nextAddr h) + length es
            then Some (es ! (a - Suc (nextAddr h))) else edgeObj h1 a)"
    by (simp_all add: nx e1)
  have c1: "as = [nextAddr h ..< nextAddr h + length (e # es)]"
  proof -
    have "[nextAddr h ..< nextAddr h + Suc (length es)]
          = nextAddr h # [Suc (nextAddr h) ..< nextAddr h + Suc (length es)]"
      by (rule upt_conv_Cons) simp
    moreover have "Suc (nextAddr h) + length es = nextAddr h + Suc (length es)" by simp
    ultimately show ?thesis unfolding as a1 by simp
  qed
  have c4: "edgeObj h' a =
           (if nextAddr h \<le> a \<and> a < nextAddr h + length (e # es)
            then Some ((e # es) ! (a - nextAddr h)) else edgeObj h a)" for a
  proof (cases "a = nextAddr h")
    case True
    then show ?thesis by (simp add: h' a4 n1)
  next
    case False
    then show ?thesis
      by (auto simp: h' a4 n1 nth_Cons' Suc_le_eq)
  qed
  show ?case
    using c1 c4 by (simp add: h' a2 a3)
qed

lemma alloc_nodes_read:
  assumes "alloc_nodes h ns = (as, h')"
  shows "map (node_of h') as = ns"
proof (rule nth_equalityI)
  note sp = alloc_nodes_spec [OF assms]
  show "length (map (node_of h') as) = length ns" using sp by simp
  fix i assume "i < length (map (node_of h') as)"
  then have i: "i < length ns" using sp by simp
  then show "map (node_of h') as ! i = ns ! i"
    using sp by (simp add: node_of_def)
qed

lemma alloc_edges_read:
  assumes "alloc_edges h es = (as, h')"
  shows "map (edge_of h') as = es"
proof (rule nth_equalityI)
  note sp = alloc_edges_spec [OF assms]
  show "length (map (edge_of h') as) = length es" using sp by simp
  fix i assume "i < length (map (edge_of h') as)"
  then have i: "i < length es" using sp by simp
  then show "map (edge_of h') as ! i = es ! i"
    using sp by (simp add: edge_of_def)
qed

lemma cleanNode_eq:
  "cleanNode n = n\<lparr>n_vx := None, n_vy := None, n_fx := PinUndefined, n_fy := PinUndefined\<rparr>"
  by (cases n) (simp add: cleanNode_def Let_def split: option.splits)

lemma cleanEdge_eq:
  "cleanEdge h e = e\<lparr>e_source := Str (endpoint_id h (e_source e)),
                      e_target := Str (endpoint_id h (e_target e))\<rparr>"
  by (cases e) (simp add: cleanEdge_def endpoint_id_def split: endpoint.splits)

subsection \<open>Reading the store after a write\<close>

lemma node_of_set_node [simp]:
  "node_of (set_node a n h) b = (if b = a then n else node_of h b)"
  by (simp add: node_of_def set_node_def)

lemma edge_of_set_node [simp]: "edge_of (set_node a n h) = edge_of h"
  by (simp add: edge_of_def set_node_def fun_eq_iff)

lemma node_of_set_edge [simp]: "node_of (set_edge a e h) = node_of h"
  by (simp add: node_of_def set_edge_def fun_eq_iff)

lemma edge_of_set_edge [simp]:
  "edge_of (set_edge a e h) b = (if b = a then e else edge_of h b)"
  by (simp add: edge_of_def set_edge_def)

subsection \<open>Ticks\<close>

lemma integrate_pins [simp]:
  "n_fx (integrate eng k n) = n_fx n" "n_fy (integrate eng k n) = n_fy n"
  "n_id (integrate eng k n) = n_id n"
  by (cases k; simp add: integrate_def Let_def split: pin.splits)+

lemma integrate_pinned_x: "n_fx n = PinAt x0 \<Longrightarrow> n_x (integrate eng k n) = Some x0"
  by (cases k) (simp add: integrate_def Let_def split: pin.splits)

lemma integrate_pinned_y: "n_fy n = PinAt y0 \<Longrightarrow> n_y (integrate eng k n) = Some y0"
  by (cases k) (simp add: integrate_def Let_def split: pin.splits)

lemma integrate_free_x:
  "n_fx n = PinNull \<or> n_fx n = PinUndefined \<Longrightarrow>
     n_x (integrate eng (x, y, vx, vy) n) = Some (x + vx * velocityDecay eng)"
  by (auto simp add: integrate_def Let_def split: pin.splits)

lemma integrate_free_y:
  "n_fy n = PinNull \<or> n_fy n = PinUndefined \<Longrightarrow>
     n_y (integrate eng (x, y, vx, vy) n) = Some (y + vy * velocityDecay eng)"
  by (auto simp add: integrate_def Let_def split: pin.splits)

lemma integrate_fold_pinned:
  assumes "n_fx (node_of h d) = PinAt x0" "n_fy (node_of h d) = PinAt y0"
    and "d \<in> snd ` set ps \<or> (n_x (node_of h d) = Some x0 \<and> n_y (node_of h d) = Some y0)"
  shows "n_fx (node_of (fold (\<lambda>(i, a) h. set_node a (integrate eng (F i) (node_of h a)) h) ps h) d)
           = PinAt x0
     \<and> n_fy (node_of (fold (\<lambda>(i, a) h. set_node a (integrate eng (F i) (node_of h a)) h) ps h) d)
           = PinAt y0
     \<and> n_x (node_of (fold (\<lambda>(i, a) h. set_node a (integrate eng (F i) (node_of h a)) h) ps h) d)
           = Some x0
     \<and> n_y (node_of (fold (\<lambda>(i, a) h. set_node a (integrate eng (F i) (node_of h a)) h) ps h) d)
           = Some y0"
  using assms
proof (induction ps arbitrary: h)
  case Nil
  then show ?case by simp
next
  case (Cons p ps)
  obtain i a where p: "p = (i, a)" by (cases p)
  let ?h1 = "set_node a (integrate eng (F i) (node_of h a)) h"
  have fx: "n_fx (node_of ?h1 d) = PinAt x0" and fy: "n_fy (node_of ?h1 d) = PinAt y0"
    using Cons.prems(1,2) by auto
  have "d \<in> snd ` set ps \<or> (n_x (node_of ?h1 d) = Some x0 \<and> n_y (node_of ?h1 d) = Some y0)"
    using Cons.prems p by (auto simp: integrate_pinned_x integrate_pinned_y)
  from Cons.IH [OF fx fy this] show ?case by (simp add: p)
qed

lemma tick_pinned:
  assumes "n_fx (node_of h d) = PinAt x0" "n_fy (node_of h d) = PinAt y0"
    and "d \<in> set (sim_nodes sim) \<or> (n_x (node_of h d) = Some x0 \<and> n_y (node_of h d) = Some y0)"
  shows "sim_nodes (fst (tick eng sim h)) = sim_nodes sim
     \<and> n_fx (node_of (snd (tick eng sim h)) d) = PinAt x0
     \<and> n_fy (node_of (snd (tick eng sim h)) d) = PinAt y0
     \<and> n_x (node_of (snd (tick eng sim h)) d) = Some x0
     \<and> n_y (node_of (snd (tick eng sim h)) d) = Some y0"
proof -
  have "snd ` set (enumerate 0 (sim_nodes sim)) = set (sim_nodes sim)"
    by (metis map_snd_enumerate set_map)
  with assms(3) have
    "d \<in> snd ` set (enumerate 0 (sim_nodes sim))
       \<or> (n_x (node_of h d) = Some x0 \<and> n_y (node_of h d) = Some y0)"
    by simp
  from integrate_fold_pinned [OF assms(1,2) this] show ?thesis
    by (simp add: tick_def Let_def)
qed

lemma ticks_pinned:
  assumes "n_fx (node_of h d) = PinAt x0" "n_fy (node_of h d) = PinAt y0"
    and "d \<in> set (sim_nodes sim) \<or> (n_x (node_of h d) = Some x0 \<and> n_y (node_of h d) = Some y0)"
  shows "n_fx (node_of (snd (ticks eng (Suc k) sim h)) d) = PinAt x0
     \<and> n_fy (node_of (snd (ticks eng (Suc k) sim h)) d) = PinAt y0
     \<and> n_x (node_of (snd (ticks eng (Suc k) sim h)) d) = Some x0
     \<and> n_y (node_of (snd (ticks eng (Suc k) sim h)) d) = Some y0"
  using assms
proof (induction k arbitrary: sim h)
  case 0
  from tick_pinned [OF 0] show ?case by (simp add: split_beta)
next
  case (Suc k)
  note t = tick_pinned [OF Suc.prems, of eng]
  have "n_fx (node_of (snd (tick eng sim h)) d) = PinAt x0"
    "n_fy (node_of (snd (tick eng sim h)) d) = PinAt y0"
    "d \<in> set (sim_nodes (fst (tick eng sim h)))
      \<or> (n_x (node_of (snd (tick eng sim h)) d) = Some x0
          \<and> n_y (node_of (snd (tick eng sim h)) d) = Some y0)"
    using t by simp_all
  from Suc.IH [OF this] show ?case
    by (simp add: split_beta)
qed

lemma integrate_fold_other:
  "d \<notin> snd ` set ps \<Longrightarrow>
     node_of (fold (\<lambda>(i, a) h. set_node a (integrate eng (F i) (node_of h a)) h) ps h) d
       = node_of h d"
  by (induction ps arbitrary: h) (auto simp: split_beta)

lemma integrate_fold_nth:
  "distinct as \<Longrightarrow> i < length as \<Longrightarrow>
     node_of (fold (\<lambda>(i, a) h. set_node a (integrate eng (F i) (node_of h a)) h)
                   (enumerate k as) h) (as ! i)
       = integrate eng (F (k + i)) (node_of h (as ! i))"
proof (induction as arbitrary: k i h)
  case Nil
  then show ?case by simp
next
  case (Cons a as)
  have sn: "snd ` set (enumerate (Suc k) as) = set as"
    by (metis map_snd_enumerate set_map)
  show ?case
  proof (cases i)
    case 0
    have "a \<notin> snd ` set (enumerate (Suc k) as)" using Cons.prems(1) sn by simp
    then show ?thesis using 0 by (simp add: integrate_fold_other)
  next
    case (Suc j)
    then have j: "j < length as" and ne: "as ! j \<noteq> a"
      using Cons.prems by auto
    from Cons.prems(1) have "distinct as" by simp
    from Cons.IH [OF this j] show ?thesis
      using Suc ne by simp
  qed
qed

subsection \<open>The id map and the link force\<close>

lemma nodes_by_id_fold_Some:
  "fold (\<lambda>a m. m(n_id (node_of h a) \<mapsto> a)) as m0 s = Some a \<Longrightarrow>
     (a \<in> set as \<and> n_id (node_of h a) = s) \<or> m0 s = Some a"
  by (induction as arbitrary: m0) (fastforce split: if_splits)+

lemma nodes_by_id_Some:
  "nodes_by_id h as s = Some a \<Longrightarrow> a \<in> set as \<and> n_id (node_of h a) = s"
  using nodes_by_id_fold_Some [of h as "\<lambda>_. None" s a] by (simp add: nodes_by_id_def)

lemma nodes_by_id_fold_None:
  "fold (\<lambda>a m. m(n_id (node_of h a) \<mapsto> a)) as m0 s = None \<longleftrightarrow>
     m0 s = None \<and> s \<notin> (\<lambda>a. n_id (node_of h a)) ` set as"
  by (induction as arbitrary: m0) auto

lemma nodes_by_id_None:
  "nodes_by_id h as s = None \<longleftrightarrow> s \<notin> (\<lambda>a. n_id (node_of h a)) ` set as"
  by (simp add: nodes_by_id_def nodes_by_id_fold_None)

lemma nodes_by_id_cong:
  "(\<And>a. a \<in> set as \<Longrightarrow> n_id (node_of h' a) = n_id (node_of h a)) \<Longrightarrow>
     nodes_by_id h' as = nodes_by_id h as"
  unfolding nodes_by_id_def
  by (rule fold_cong) simp_all

lemma initialize_node_id [simp]: "n_id (initialize_node eng i n) = n_id n"
  by (simp add: initialize_node_def Let_def split: pin.splits)

lemma nextAddr_set_node [simp]: "nextAddr (set_node a n h) = nextAddr h"
  by (simp add: set_node_def)

lemma nextAddr_set_edge [simp]: "nextAddr (set_edge a e h) = nextAddr h"
  by (simp add: set_edge_def)

lemma edgeObj_set_node [simp]: "edgeObj (set_node a n h) = edgeObj h"
  by (simp add: set_node_def)

lemma nodeObj_set_edge [simp]: "nodeObj (set_edge a e h) = nodeObj h"
  by (simp add: set_edge_def)

lemma initialize_nodes_fold:
  "n_id (node_of (fold (\<lambda>(i, a) h. set_node a (initialize_node eng i (node_of h a)) h) ps h) b)
     = n_id (node_of h b)
   \<and> edgeObj (fold (\<lambda>(i, a) h. set_node a (initialize_node eng i (node_of h a)) h) ps h)
     = edgeObj h
   \<and> nextAddr (fold (\<lambda>(i, a) h. set_node a (initialize_node eng i (node_of h a)) h) ps h)
     = nextAddr h"
  by (induction ps arbitrary: h) (auto simp: split_beta)

lemma initialize_nodes_keeps:
  "n_id (node_of (initialize_nodes eng as h) b) = n_id (node_of h b)"
  "edgeObj (initialize_nodes eng as h) = edgeObj h"
  "nextAddr (initialize_nodes eng as h) = nextAddr h"
  using initialize_nodes_fold [of eng "enumerate 0 as" h b]
  by (simp_all add: initialize_nodes_def)

lemma edge_of_initialize_nodes [simp]: "edge_of (initialize_nodes eng as h) = edge_of h"
  by (simp add: edge_of_def fun_eq_iff initialize_nodes_keeps)

lemma resolve_endpoint_idem:
  "resolve_endpoint m p = Inr p' \<Longrightarrow> resolve_endpoint m p' = Inr p'"
  by (cases p) (auto split: option.splits)

lemma resolve_endpoint_Obj:
  "resolve_endpoint m p = Inr p' \<Longrightarrow> \<not> is_plain_id p'"
  by (cases p) (auto split: option.splits)

lemma initialize_links_ok:
  "initialize_links m ls h = (None, h') \<Longrightarrow>
     nodeObj h' = nodeObj h \<and> nextAddr h' = nextAddr h
     \<and> (\<forall>l. if l \<in> set ls
             then resolve_endpoint m (e_source (edge_of h l)) = Inr (e_source (edge_of h' l))
                  \<and> resolve_endpoint m (e_target (edge_of h l)) = Inr (e_target (edge_of h' l))
                  \<and> e_id (edge_of h' l) = e_id (edge_of h l)
                  \<and> e_label (edge_of h' l) = e_label (edge_of h l)
             else edgeObj h' l = edgeObj h l)"
proof (induction ls arbitrary: h)
  case Nil
  then show ?case by simp
next
  case (Cons k ls)
  from Cons.prems obtain s where s: "resolve_endpoint m (e_source (edge_of h k)) = Inr s"
    by (auto split: sum.splits)
  define h1 where "h1 = set_edge k ((edge_of h k)\<lparr>e_source := s\<rparr>) h"
  from Cons.prems s obtain t where t: "resolve_endpoint m (e_target (edge_of h1 k)) = Inr t"
    by (auto simp: h1_def Let_def split: sum.splits)
  define h2 where "h2 = set_edge k ((edge_of h1 k)\<lparr>e_target := t\<rparr>) h1"
  have rest: "initialize_links m ls h2 = (None, h')"
    using Cons.prems s t by (simp add: h1_def h2_def Let_def)
  note IH = Cons.IH [OF rest]
  have ek: "edge_of h2 k = (edge_of h k)\<lparr>e_source := s, e_target := t\<rparr>"
    by (simp add: h2_def h1_def)
  have t': "resolve_endpoint m (e_target (edge_of h k)) = Inr t"
    using t by (simp add: h1_def)
  have other: "edgeObj h2 l = edgeObj h l" if "l \<noteq> k" for l
    using that by (simp add: h2_def h1_def set_edge_def)
  then have other': "edge_of h2 l = edge_of h l" if "l \<noteq> k" for l
    using that by (simp add: edge_of_def)
  have frame: "nodeObj h' = nodeObj h \<and> nextAddr h' = nextAddr h"
    using IH by (simp add: h2_def h1_def)
  have "if l \<in> set (k # ls)
        then resolve_endpoint m (e_source (edge_of h l)) = Inr (e_source (edge_of h' l))
             \<and> resolve_endpoint m (e_target (edge_of h l)) = Inr (e_target (edge_of h' l))
             \<and> e_id (edge_of h' l) = e_id (edge_of h l)
             \<and> e_label (edge_of h' l) = e_label (edge_of h l)
        else edgeObj h' l = edgeObj h l" for l
  proof (cases "l = k")
    case True
    show ?thesis
    proof (cases "k \<in> set ls")
      case True
      with IH have
        "resolve_endpoint m (e_source (edge_of h2 k)) = Inr (e_source (edge_of h' k))"
        "resolve_endpoint m (e_target (edge_of h2 k)) = Inr (e_target (edge_of h' k))"
        "e_id (edge_of h' k) = e_id (edge_of h2 k)"
        "e_label (edge_of h' k) = e_label (edge_of h2 k)"
        by (auto split: if_splits)
      then show ?thesis
        using \<open>l = k\<close> s t' resolve_endpoint_idem [OF s] resolve_endpoint_idem [OF t']
        by (simp add: ek)
    next
      case False
      with IH have "edgeObj h' k = edgeObj h2 k" by (auto split: if_splits)
      then have "edge_of h' k = edge_of h2 k" by (simp add: edge_of_def)
      then show ?thesis using \<open>l = k\<close> s t' by (simp add: ek)
    qed
  next
    case False
    then show ?thesis
      using IH [THEN conjunct2, THEN conjunct2, THEN spec, of l] other [OF False] other' [OF False]
      by (simp split: if_splits)
  qed
  with frame show ?case by blast
qed

lemma resolve_endpoint_id:
  "resolve_endpoint (nodes_by_id h as) p = Inr p' \<Longrightarrow> endpoint_id h p' = endpoint_id h p"
  by (cases p) (auto simp: endpoint_id_def dest: nodes_by_id_Some split: option.splits)

lemma endpoint_id_cong:
  "(\<And>a. n_id (node_of h' a) = n_id (node_of h a)) \<Longrightarrow> endpoint_id h' p = endpoint_id h p"
  by (cases p) (simp_all add: endpoint_id_def)

subsection \<open>Deep copy and reconciliation\<close>

lemma heap_extends_refl [simp]: "heap_extends h h"
  by (simp add: heap_extends_def)

lemma heap_extends_trans: "heap_extends h1 h2 \<Longrightarrow> heap_extends h2 h3 \<Longrightarrow> heap_extends h1 h3"
  by (auto simp: heap_extends_def)

lemma heap_extends_alloc_node: "heap_extends h (snd (alloc_node h n))"
  by (simp add: heap_extends_def alloc_node_def)

lemma heap_extends_alloc_edge: "heap_extends h (snd (alloc_edge h e))"
  by (simp add: heap_extends_def alloc_edge_def)

lemma heap_extends_alloc_nodes: "alloc_nodes h ns = (as, h') \<Longrightarrow> heap_extends h h'"
  using alloc_nodes_spec [of h ns as h'] by (simp add: heap_extends_def)

lemma endpoint_copied_mono:
  "endpoint_copied h0 k h1 p p' \<Longrightarrow> heap_extends h1 h2 \<Longrightarrow> endpoint_copied h0 k h2 p p'"
  by (auto simp: endpoint_copied_def heap_extends_def split: endpoint.splits)

lemma edge_copied_mono:
  "edge_copied h0 k h1 l l' \<Longrightarrow> heap_extends h1 h2 \<Longrightarrow> edge_copied h0 k h2 l l'"
  unfolding edge_copied_def
  by (cases "edgeObj h1 l'")
     (auto simp: heap_extends_def intro: endpoint_copied_mono [unfolded heap_extends_def])

lemma copy_endpoint_spec:
  assumes "copy_endpoint h0 h p = (p', h')"
  shows "heap_extends h h' \<and> endpoint_copied h0 (nextAddr h) h' p p' \<and> edgeObj h' = edgeObj h"
proof (cases p)
  case (Str s)
  with assms show ?thesis by (auto simp: endpoint_copied_def)
next
  case (Obj a)
  with assms have "p' = Obj (nextAddr h)" "h' = snd (alloc_node h (node_of h0 a))"
    by (auto simp: alloc_node_def)
  then show ?thesis
    using Obj heap_extends_alloc_node [of h "node_of h0 a"]
    by (simp add: endpoint_copied_def alloc_node_def)
qed

lemma copy_edge_spec:
  assumes "copy_edge h0 h l = (l', h')"
  shows "heap_extends h h' \<and> edge_copied h0 (nextAddr h) h' l l'"
proof -
  obtain s h1 where s: "copy_endpoint h0 h (e_source (edge_of h0 l)) = (s, h1)"
    by (cases "copy_endpoint h0 h (e_source (edge_of h0 l))")
  obtain t h2 where t: "copy_endpoint h0 h1 (e_target (edge_of h0 l)) = (t, h2)"
    by (cases "copy_endpoint h0 h1 (e_target (edge_of h0 l))")
  define e' where "e' = (edge_of h0 l)\<lparr>e_source := s, e_target := t\<rparr>"
  from assms s t have l': "l' = nextAddr h2" and h': "h' = snd (alloc_edge h2 e')"
    by (auto simp: copy_edge_def Let_def e'_def alloc_edge_def)
  note S = copy_endpoint_spec [OF s] and T = copy_endpoint_spec [OF t]
  have x12: "heap_extends h1 h2" and x01: "heap_extends h h1" using S T by simp_all
  have x23: "heap_extends h2 h'" unfolding h' by (rule heap_extends_alloc_edge)
  have x13: "heap_extends h1 h'" using x12 x23 by (rule heap_extends_trans)
  have x03: "heap_extends h h'" using x01 x13 by (rule heap_extends_trans)
  have le: "nextAddr h \<le> nextAddr h1" using x01 by (simp add: heap_extends_def)
  have cs: "endpoint_copied h0 (nextAddr h) h' (e_source (edge_of h0 l)) s"
    using S x13 endpoint_copied_mono by blast
  have "endpoint_copied h0 (nextAddr h1) h' (e_target (edge_of h0 l)) t"
    using T x23 endpoint_copied_mono by blast
  then have ct: "endpoint_copied h0 (nextAddr h) h' (e_target (edge_of h0 l)) t"
    using le by (auto simp: endpoint_copied_def split: endpoint.splits)
  have "nextAddr h \<le> l'" using x01 x12 by (simp add: l' heap_extends_def)
  moreover have "l' < nextAddr h'" "edgeObj h' l' = Some e'"
    by (simp_all add: l' h' alloc_edge_def)
  ultimately have "edge_copied h0 (nextAddr h) h' l l'"
    using cs ct by (simp add: edge_copied_def e'_def)
  with x03 show ?thesis by simp
qed

lemma copy_edges_spec:
  "copy_edges h0 h ls = (ls', h') \<Longrightarrow>
     heap_extends h h' \<and> length ls' = length ls
     \<and> (\<forall>j < length ls. edge_copied h0 (nextAddr h) h' (ls ! j) (ls' ! j))"
proof (induction ls arbitrary: h ls' h')
  case Nil
  then show ?case by simp
next
  case (Cons l ls)
  obtain l1 h1 where a: "copy_edge h0 h l = (l1, h1)" by (cases "copy_edge h0 h l")
  obtain ls1 h2 where b: "copy_edges h0 h1 ls = (ls1, h2)" by (cases "copy_edges h0 h1 ls")
  from Cons.prems a b have r: "ls' = l1 # ls1" "h' = h2" by simp_all
  note A = copy_edge_spec [OF a] and B = Cons.IH [OF b]
  have x: "heap_extends h h2" using A B heap_extends_trans by blast
  have le: "nextAddr h \<le> nextAddr h1" using A by (simp add: heap_extends_def)
  have first: "edge_copied h0 (nextAddr h) h2 l l1"
    using A B edge_copied_mono by blast
  have rest: "edge_copied h0 (nextAddr h) h2 (ls ! j) (ls1 ! j)" if "j < length ls" for j
  proof -
    from B that have "edge_copied h0 (nextAddr h1) h2 (ls ! j) (ls1 ! j)" by simp
    then show ?thesis
      using le unfolding edge_copied_def endpoint_copied_def
      by (auto split: option.splits endpoint.splits)
  qed
  have "edge_copied h0 (nextAddr h) h2 ((l # ls) ! j) ((l1 # ls1) ! j)"
    if "j < length (l # ls)" for j
    using that first rest by (cases j) simp_all
  then show ?case using x B by (simp add: r)
qed

lemma copy_position_fold:
  assumes "distinct ns" and "\<forall>s ex. m s = Some ex \<longrightarrow> ex \<notin> set ns"
  shows "(\<forall>a \<in> set ns. node_of (fold (copy_position m) ns h) a
            = (case m (n_id (node_of h a)) of
                 None \<Rightarrow> node_of h a
               | Some ex \<Rightarrow> take_position (node_of h ex) (node_of h a)))
     \<and> (\<forall>a. a \<notin> set ns \<longrightarrow> nodeObj (fold (copy_position m) ns h) a = nodeObj h a)
     \<and> edgeObj (fold (copy_position m) ns h) = edgeObj h
     \<and> nextAddr (fold (copy_position m) ns h) = nextAddr h"
  using assms
proof (induction ns arbitrary: h)
  case Nil
  then show ?case by simp
next
  case (Cons b ns)
  define h1 where "h1 = copy_position m b h"
  have d: "distinct ns" and bn: "b \<notin> set ns" using Cons.prems(1) by simp_all
  have m': "\<forall>s ex. m s = Some ex \<longrightarrow> ex \<notin> set ns" "\<And>s ex. m s = Some ex \<Longrightarrow> ex \<noteq> b"
    using Cons.prems(2) by auto
  note IH = Cons.IH [OF d m'(1), where h = h1]
  have o: "nodeObj h1 a = nodeObj h a" if "a \<noteq> b" for a
    using that by (simp add: h1_def copy_position_def set_node_def split: option.splits)
  then have o': "node_of h1 a = node_of h a" if "a \<noteq> b" for a
    using that by (simp add: node_of_def)
  have e: "edgeObj h1 = edgeObj h" "nextAddr h1 = nextAddr h"
    by (simp_all add: h1_def copy_position_def split: option.splits)
  have hb: "node_of h1 b = (case m (n_id (node_of h b)) of
                 None \<Rightarrow> node_of h b
               | Some ex \<Rightarrow> take_position (node_of h ex) (node_of h b))"
    by (simp add: h1_def copy_position_def split: option.splits)
  have f: "fold (copy_position m) (b # ns) h = fold (copy_position m) ns h1"
    by (simp add: h1_def)
  have c1: "node_of (fold (copy_position m) ns h1) a
            = (case m (n_id (node_of h a)) of
                 None \<Rightarrow> node_of h a
               | Some ex \<Rightarrow> take_position (node_of h ex) (node_of h a))"
    if "a \<in> set (b # ns)" for a
  proof (cases "a = b")
    case True
    from IH bn have "nodeObj (fold (copy_position m) ns h1) b = nodeObj h1 b" by blast
    then have "node_of (fold (copy_position m) ns h1) b = node_of h1 b"
      by (simp add: node_of_def)
    then show ?thesis unfolding True using hb by simp
  next
    case False
    with that have a: "a \<in> set ns" by simp
    with IH have "node_of (fold (copy_position m) ns h1) a
            = (case m (n_id (node_of h1 a)) of
                 None \<Rightarrow> node_of h1 a
               | Some ex \<Rightarrow> take_position (node_of h1 ex) (node_of h1 a))" by blast
    then show ?thesis
      using o' [OF False] m'(2) by (auto simp: o' split: option.splits)
  qed
  have c2: "nodeObj (fold (copy_position m) ns h1) a = nodeObj h a" if "a \<notin> set (b # ns)" for a
    using that IH o by auto
  show ?case
    unfolding f using c1 c2 IH e by auto
qed

lemma json_copy_spec:
  assumes "json_copy h g = (g', h')"
  shows "heap_extends h h'
     \<and> nodes g' = [nextAddr h ..< nextAddr h + length (nodes g)]
     \<and> nextAddr h + length (nodes g) \<le> nextAddr h'
     \<and> map (node_of h') (nodes g') = map (node_of h) (nodes g)
     \<and> length (edges g') = length (edges g)
     \<and> (\<forall>j < length (edges g).
           edge_copied h (nextAddr h + length (nodes g)) h' (edges g ! j) (edges g' ! j))"
proof -
  obtain ns h1 where a: "alloc_nodes h (map (node_of h) (nodes g)) = (ns, h1)"
    by (cases "alloc_nodes h (map (node_of h) (nodes g))")
  obtain es h2 where b: "copy_edges h h1 (edges g) = (es, h2)"
    by (cases "copy_edges h h1 (edges g)")
  from assms a b have r: "g' = \<lparr>nodes = ns, edges = es\<rparr>" "h' = h2"
    by (simp_all add: json_copy_def)
  note A = alloc_nodes_spec [OF a] and B = copy_edges_spec [OF b]
  have x1: "heap_extends h h1" by (rule heap_extends_alloc_nodes [OF a])
  have x2: "heap_extends h1 h2" using B by simp
  have nx: "nextAddr h1 = nextAddr h + length (nodes g)" using A by simp
  have rd: "map (node_of h1) ns = map (node_of h) (nodes g)"
    by (rule alloc_nodes_read [OF a])
  have "node_of h2 a = node_of h1 a" if "a \<in> set ns" for a
  proof -
    from that A have "a < nextAddr h1" by auto
    with x2 show ?thesis by (simp add: heap_extends_def node_of_def)
  qed
  then have "map (node_of h2) ns = map (node_of h1) ns" by simp
  with rd have rd2: "map (node_of h2) ns = map (node_of h) (nodes g)" by simp
  have "nextAddr h1 \<le> nextAddr h2" using x2 by (simp add: heap_extends_def)
  then show ?thesis
    using heap_extends_trans [OF x1 x2] A B rd2 nx by (simp add: r)
qed

lemma edge_copied_frame:
  assumes "edge_copied h0 k h1 l l'"
    and "edgeObj h2 = edgeObj h1" and "nextAddr h2 = nextAddr h1"
    and "\<forall>a. k \<le> a \<longrightarrow> nodeObj h2 a = nodeObj h1 a"
  shows "edge_copied h0 k h2 l l'"
  using assms unfolding edge_copied_def endpoint_copied_def
  by (auto split: option.splits endpoint.splits)

lemma reconcile_spec:
  assumes run: "reconcile g c h = (c', h')"
    and old: "\<forall>sim. simulationRef c = Some sim \<longrightarrow> (\<forall>a \<in> set (sim_nodes sim). a < nextAddr h)"
  shows "heap_extends h h'
     \<and> simulationRef c' = simulationRef c
     \<and> nodes (activeGraph c') = [nextAddr h ..< nextAddr h + length (nodes g)]
     \<and> length (edges (activeGraph c')) = length (edges g)
     \<and> (\<forall>j < length (edges g).
           edge_copied h (nextAddr h + length (nodes g)) h' (edges g ! j)
             (edges (activeGraph c') ! j))
     \<and> (\<forall>i < length (nodes g).
           node_of h' (nodes (activeGraph c') ! i)
             = (case simulationRef c of
                  None \<Rightarrow> node_of h (nodes g ! i)
                | Some sim \<Rightarrow>
                    (case nodes_by_id h (sim_nodes sim) (n_id (node_of h (nodes g ! i))) of
                       None \<Rightarrow> node_of h (nodes g ! i)
                     | Some ex \<Rightarrow> take_position (node_of h ex) (node_of h (nodes g ! i)))))"
proof -
  define k where "k = nextAddr h"
  define n where "n = length (nodes g)"
  obtain g1 h1 where j: "json_copy h g = (g1, h1)" by (cases "json_copy h g")
  note J = json_copy_spec [OF j, folded k_def n_def]
  have ns: "nodes g1 = [k ..< k + n]" using J by simp
  have x1: "heap_extends h h1" using J by simp
  have c': "c' = c\<lparr>activeGraph := g1\<rparr>"
    using run j by (auto simp: reconcile_def Let_def)
  have rd: "node_of h1 (nodes g1 ! i) = node_of h (nodes g ! i)" if "i < n" for i
  proof -
    from J have "map (node_of h1) (nodes g1) = map (node_of h) (nodes g)" by blast
    then have "map (node_of h1) (nodes g1) ! i = map (node_of h) (nodes g) ! i" by (rule arg_cong)
    moreover have "i < length (nodes g1)" "i < length (nodes g)" using that ns by (simp_all add: n_def)
    ultimately show ?thesis by (simp only: nth_map)
  qed
  show ?thesis
  proof (cases "simulationRef c")
    case None
    then have "h' = h1" using run j by (auto simp: reconcile_def Let_def)
    then show ?thesis
      using J None rd by (simp add: c' k_def n_def)
  next
    case (Some sim)
    define m where "m = nodes_by_id h1 (sim_nodes sim)"
    have h': "h' = fold (copy_position m) (nodes g1) h1"
      using run j Some by (auto simp: reconcile_def Let_def m_def)
    have lt: "a < k" if "a \<in> set (sim_nodes sim)" for a
      using old Some that by (simp add: k_def)
    have same: "node_of h1 a = node_of h a" if "a < k" for a
      using x1 that by (simp add: heap_extends_def node_of_def k_def)
    have m: "m = nodes_by_id h (sim_nodes sim)"
      unfolding m_def by (rule nodes_by_id_cong) (simp add: same lt)
    have out: "\<forall>s ex. m s = Some ex \<longrightarrow> ex \<notin> set (nodes g1)"
    proof (intro allI impI)
      fix s ex assume "m s = Some ex"
      then have "ex \<in> set (sim_nodes sim)" using nodes_by_id_Some [of h1] by (simp add: m_def)
      then show "ex \<notin> set (nodes g1)" using lt [of ex] by (simp add: ns)
    qed
    have dist: "distinct (nodes g1)" by (simp add: ns)
    note F = copy_position_fold [OF dist out, of h1, folded h']
    have frame: "nodeObj h' a = nodeObj h1 a" if "a \<notin> set (nodes g1)" for a
      using F that by blast
    have e: "edgeObj h' = edgeObj h1" "nextAddr h' = nextAddr h1" using F by simp_all
    have x: "heap_extends h h'"
      using x1 frame e unfolding heap_extends_def by (auto simp: ns k_def)
    have ec: "edge_copied h (k + n) h' (edges g ! j) (edges g1 ! j)" if "j < length (edges g)" for j
    proof (rule edge_copied_frame)
      show "edge_copied h (k + n) h1 (edges g ! j) (edges g1 ! j)" using J that by simp
      show "\<forall>a. k + n \<le> a \<longrightarrow> nodeObj h' a = nodeObj h1 a"
        using frame by (simp add: ns)
    qed (rule e)+
    have nd: "node_of h' (nodes g1 ! i)
        = (case nodes_by_id h (sim_nodes sim) (n_id (node_of h (nodes g ! i))) of
             None \<Rightarrow> node_of h (nodes g ! i)
           | Some ex \<Rightarrow> take_position (node_of h ex) (node_of h (nodes g ! i)))"
      if i: "i < n" for i
    proof -
      have mem: "nodes g1 ! i \<in> set (nodes g1)" using i ns by simp
      with F have "node_of h' (nodes g1 ! i)
        = (case m (n_id (node_of h1 (nodes g1 ! i))) of
             None \<Rightarrow> node_of h1 (nodes g1 ! i)
           | Some ex \<Rightarrow> take_position (node_of h1 ex) (node_of h1 (nodes g1 ! i)))"
        by blast
      moreover have "node_of h1 ex = node_of h ex" if "m s = Some ex" for s ex
      proof -
        from that have "ex \<in> set (sim_nodes sim)"
          using nodes_by_id_Some [of h1] by (simp add: m_def)
        then show ?thesis using same lt by simp
      qed
      ultimately show ?thesis
        unfolding rd [OF i] m [symmetric] by (auto split: option.splits)
    qed
    show ?thesis
      using x J ec nd Some by (simp add: c' k_def [symmetric] n_def [symmetric])
  qed
qed

lemma take_position_fields:
  "n_id (take_position ex n) = n_id n" "n_label (take_position ex n) = n_label n"
  "n_type (take_position ex n) = n_type n" "n_description (take_position ex n) = n_description n"
  "n_fx (take_position ex n) = n_fx n" "n_fy (take_position ex n) = n_fy n"
  "n_x (take_position ex n) = n_x ex" "n_y (take_position ex n) = n_y ex"
  "n_vx (take_position ex n) = (case n_vx ex of None \<Rightarrow> n_vx n | Some v \<Rightarrow> Some v)"
  "n_vy (take_position ex n) = (case n_vy ex of None \<Rightarrow> n_vy n | Some v \<Rightarrow> Some v)"
  by (simp_all add: take_position_def Let_def split: option.splits)

subsection \<open>An edge whose endpoint no node has\<close>

lemma initialize_links_fails:
  assumes "l \<in> set ls"
    and "e_source (edge_of h l) = Str s \<or> e_target (edge_of h l) = Str s"
    and "m s = None"
  shows "\<exists>s'. m s' = None \<and> fst (initialize_links m ls h) = Some (Error (''node not found: '' @ s'))"
  using assms
proof (induction ls arbitrary: h)
  case Nil
  then show ?case by simp
next
  case (Cons k ls)
  show ?case
  proof (cases "resolve_endpoint m (e_source (edge_of h k))")
    case (Inl err)
    then obtain s' where "m s' = None" "err = Error (''node not found: '' @ s')"
      by (cases "e_source (edge_of h k)") (auto split: option.splits)
    then show ?thesis using Inl by auto
  next
    case (Inr src)
    define h1 where "h1 = set_edge k ((edge_of h k)\<lparr>e_source := src\<rparr>) h"
    show ?thesis
    proof (cases "resolve_endpoint m (e_target (edge_of h1 k))")
      case (Inl err)
      then obtain s' where "m s' = None" "err = Error (''node not found: '' @ s')"
        by (cases "e_target (edge_of h1 k)") (auto split: option.splits)
      then show ?thesis using Inl Inr by (auto simp: h1_def Let_def)
    next
      case tgt: (Inr t)
      define h2 where "h2 = set_edge k ((edge_of h1 k)\<lparr>e_target := t\<rparr>) h1"
      have step: "initialize_links m (k # ls) h = initialize_links m ls h2"
        using Inr tgt by (simp add: h1_def h2_def Let_def)
      have t': "resolve_endpoint m (e_target (edge_of h k)) = Inr t"
        using tgt by (simp add: h1_def)
      have "l \<noteq> k"
      proof
        assume "l = k"
        with Cons.prems(2,3) Inr t' show False by (auto split: option.splits)
      qed
      then have "l \<in> set ls" "edge_of h2 l = edge_of h l"
        using Cons.prems(1) by (simp_all add: h2_def h1_def)
      with Cons.IH [of h2] Cons.prems(2,3) show ?thesis
        unfolding step by simp
    qed
  qed
qed

lemma edge_copied_Str:
  assumes "edge_copied h0 k h' l l'"
  shows "(e_source (edge_of h0 l) = Str s \<longrightarrow> e_source (edge_of h' l') = Str s)
     \<and> (e_target (edge_of h0 l) = Str s \<longrightarrow> e_target (edge_of h' l') = Str s)"
  using assms unfolding edge_copied_def endpoint_copied_def edge_of_def
  by (auto split: option.splits endpoint.splits)

subsection \<open>Claims\<close>

text \<open>
  C9. When no simulation has been created (the reference is absent), the export accessor
  returns the current working copy \<open>activeGraph\<close>; it has no failing branch. That is so
  from the first render on, and stays so when the render effect finds no svg element and
  returns without creating a simulation. Stopping a simulation does not change what the
  accessor returns.
\<close>

theorem getGraph_without_simulation:
  "simulationRef c = None \<Longrightarrow>
     getGraph c = activeGraph c
     \<and> getGraph (mount g) = g
     \<and> getGraph (fst (snd (render_effect False eng c h))) = activeGraph c
     \<and> getGraph (effect_cleanup c') = getGraph c'"
  by (cases "simulationRef c'")
     (simp_all add: getGraph_def mount_def render_effect_def effect_cleanup_def stop_def)

theorem getGraph_without_simulation_witness:
  "simulationRef (mount fresh_graph) = None
   \<and> getGraph (mount fresh_graph) = fresh_graph
   \<and> getGraph (fst (snd (render_effect False demo_engine (mount fresh_graph) fresh_heap)))
       = fresh_graph
   \<and> getGraph (effect_cleanup live_canvas) = \<lparr>nodes = [0, 1], edges = [2]\<rparr>"
proof -
  have none: "simulationRef (mount fresh_graph) = None" by (simp add: mount_def)
  have a: "activeGraph (mount fresh_graph) = fresh_graph" by (simp add: mount_def)
  have l: "getGraph live_canvas = \<lparr>nodes = [0, 1], edges = [2]\<rparr>"
    by (simp add: getGraph_def live_canvas_def live_sim_def)
  show ?thesis
    using getGraph_without_simulation
      [OF none, of fresh_graph demo_engine fresh_heap live_canvas] none
    by (simp add: a l)
qed

text \<open>
  C4. Selection is exclusive after every click: a click on a node calls the node callback
  with that node and the edge callback with None, a click on an edge does the reverse, a
  click on the empty canvas calls both with None; the node and edge handlers stop
  propagation, so the background handler does not run after them, and no click makes
  both a node selection and an edge selection.
\<close>

theorem click_selection_exclusive:
  "click (OnNodeCircle d) = [NodeSelect (Some d), EdgeSelect None]
   \<and> click (OnEdgeLine d) = [EdgeSelect (Some d), NodeSelect None]
   \<and> click OnCanvas = [NodeSelect None, EdgeSelect None]
   \<and> on_click (OnNodeCircle d) s = s\<lparr>selectedNode := Some d, selectedEdge := None\<rparr>
   \<and> on_click (OnEdgeLine d) s = s\<lparr>selectedNode := None, selectedEdge := Some d\<rparr>
   \<and> on_click OnCanvas s = s\<lparr>selectedNode := None, selectedEdge := None\<rparr>
   \<and> \<not> (selects_node (click t) \<and> selects_edge (click t))
   \<and> \<not> (selectedNode (on_click t s) \<noteq> None \<and> selectedEdge (on_click t s) \<noteq> None)"
proof -
  have calls: "click (OnNodeCircle d) = [NodeSelect (Some d), EdgeSelect None]"
    "click (OnEdgeLine d) = [EdgeSelect (Some d), NodeSelect None]"
    "click OnCanvas = [NodeSelect None, EdgeSelect None]" for d
    by (simp_all add: click_def node_click_def edge_click_def background_click_def)
  have excl: "\<not> (selects_node (click t) \<and> selects_edge (click t))"
    by (cases t) (auto simp: calls selects_node_def selects_edge_def)
  have sel: "\<not> (selectedNode (on_click t s) \<noteq> None \<and> selectedEdge (on_click t s) \<noteq> None)"
    by (cases t) (simp_all add: on_click_def calls)
  show ?thesis
    using excl sel by (simp add: calls on_click_def)
qed

theorem click_selection_exclusive_witness:
  "selectedNode (on_click (OnNodeCircle 3) (initial_app\<lparr>selectedEdge := Some 7\<rparr>)) = Some 3
   \<and> selectedEdge (on_click (OnNodeCircle 3) (initial_app\<lparr>selectedEdge := Some 7\<rparr>)) = None
   \<and> \<not> (selects_node (click (OnEdgeLine 7)) \<and> selects_edge (click (OnEdgeLine 7)))"
  using click_selection_exclusive
    [of 3 "initial_app\<lparr>selectedEdge := Some 7\<rparr>" "OnEdgeLine 7"]
  by simp

text \<open>
  C7. For every graph, the snapshot that \<open>handleSave\<close> produces for persistence stores
  every edge with plain node-id strings as source and target (the id of the referenced
  node where the exported edge holds a node object), keeps each node's id, label, type,
  description and position (x, y), and omits velocity (vx, vy) and pin state (fx, fy)
  from every node. The save happens when the user has entered a non-empty name.
\<close>

theorem handleSave_persisted_form:
  assumes "name \<noteq> []"
  shows "\<exists>sv h'. handleSave (Some name) t_id t_stamp graphRef s h
              = (s\<lparr>savedOntologies := sv # savedOntologies s,
                   alerts := alerts s @ [''Ontology saved locally!'']\<rparr>, h')
     \<and> map (edge_of h') (edges (s_data sv))
         = map (\<lambda>a. (edge_of h a)\<lparr>e_source := Str (endpoint_id h (e_source (edge_of h a))),
                                   e_target := Str (endpoint_id h (e_target (edge_of h a)))\<rparr>)
               (edges (case graphRef of Some c \<Rightarrow> getGraph c | None \<Rightarrow> graph s))
     \<and> map (node_of h') (nodes (s_data sv))
         = map (\<lambda>a. (node_of h a)\<lparr>n_vx := None, n_vy := None,
                                   n_fx := PinUndefined, n_fy := PinUndefined\<rparr>)
               (nodes (case graphRef of Some c \<Rightarrow> getGraph c | None \<Rightarrow> graph s))
     \<and> list_all (\<lambda>e. is_plain_id (e_source e) \<and> is_plain_id (e_target e))
           (map (edge_of h') (edges (s_data sv)))"
proof -
  define cur where "cur = (case graphRef of Some c \<Rightarrow> getGraph c | None \<Rightarrow> graph s)"
  define cn where "cn = map (\<lambda>a. cleanNode (node_of h a)) (nodes cur)"
  define ce where "ce = map (\<lambda>a. cleanEdge h (edge_of h a)) (edges cur)"
  obtain ns h1 where r1: "alloc_nodes h cn = (ns, h1)" by (cases "alloc_nodes h cn")
  obtain es h2 where r2: "alloc_edges h1 ce = (es, h2)" by (cases "alloc_edges h1 ce")
  define sv where "sv = \<lparr>s_id = show_nat t_id, s_name = name, s_timestamp = t_stamp,
                       s_data = \<lparr>nodes = ns, edges = es\<rparr>\<rparr>"
  have run: "handleSave (Some name) t_id t_stamp graphRef s h
              = (s\<lparr>savedOntologies := sv # savedOntologies s,
                   alerts := alerts s @ [''Ontology saved locally!'']\<rparr>, h2)"
    using assms r1 r2
    by (simp add: handleSave_def Let_def cur_def [symmetric] cn_def [symmetric]
        ce_def [symmetric] sv_def)
  have e: "map (edge_of h2) es = ce" by (rule alloc_edges_read [OF r2])
  have "nodeObj h2 = nodeObj h1" using alloc_edges_spec [OF r2] by simp
  then have "node_of h2 = node_of h1" by (simp add: node_of_def fun_eq_iff)
  then have n: "map (node_of h2) ns = cn" using alloc_nodes_read [OF r1] by simp
  have plain: "list_all (\<lambda>e. is_plain_id (e_source e) \<and> is_plain_id (e_target e)) ce"
    by (simp add: ce_def list_all_iff cleanEdge_eq)
  show ?thesis
    apply (rule exI [of _ sv], rule exI [of _ h2])
    using run e n plain
    by (simp add: sv_def cn_def ce_def cleanNode_eq cleanEdge_eq cur_def)
qed

theorem handleSave_persisted_form_witness:
  "''demo'' \<noteq> []
   \<and> (\<exists>sv h'. handleSave (Some ''demo'') 5 6 (Some live_canvas) initial_app live_heap
              = (initial_app\<lparr>savedOntologies := sv # savedOntologies initial_app,
                   alerts := alerts initial_app @ [''Ontology saved locally!'']\<rparr>, h')
     \<and> map (edge_of h') (edges (s_data sv))
         = [\<lparr>e_id = ''e1'', e_source = Str ''a'', e_target = Str ''b'', e_label = ''is_a''\<rparr>]
     \<and> map (node_of h') (nodes (s_data sv))
         = [node_a\<lparr>n_vx := None, n_vy := None, n_fx := PinUndefined, n_fy := PinUndefined\<rparr>,
            node_b\<lparr>n_vx := None, n_vy := None\<rparr>])"
proof -
  have name: "''demo'' \<noteq> []" by simp
  from handleSave_persisted_form [OF name, of 5 6 "Some live_canvas" initial_app live_heap]
  obtain sv h' where
    "handleSave (Some ''demo'') 5 6 (Some live_canvas) initial_app live_heap
       = (initial_app\<lparr>savedOntologies := sv # savedOntologies initial_app,
            alerts := alerts initial_app @ [''Ontology saved locally!'']\<rparr>, h')"
    "map (edge_of h') (edges (s_data sv))
       = [\<lparr>e_id = ''e1'', e_source = Str ''a'', e_target = Str ''b'', e_label = ''is_a''\<rparr>]"
    "map (node_of h') (nodes (s_data sv))
       = [node_a\<lparr>n_vx := None, n_vy := None, n_fx := PinUndefined, n_fy := PinUndefined\<rparr>,
          node_b\<lparr>n_vx := None, n_vy := None, n_fx := PinUndefined, n_fy := PinUndefined\<rparr>]"
    by (auto simp: getGraph_def live_canvas_def live_sim_def live_heap_def edge_of_def
        node_of_def endpoint_id_def node_a_def node_b_def)
  moreover have "node_b\<lparr>n_vx := None, n_vy := None, n_fx := PinUndefined, n_fy := PinUndefined\<rparr>
     = node_b\<lparr>n_vx := None, n_vy := None\<rparr>"
    by (simp add: node_b_def)
  ultimately show ?thesis using name by auto
qed

text \<open>
  C8. If graph generation fails (the promise rejects), the displayed graph is left as it
  was: no \<open>setGraph\<close> happens, neither before the call nor when it has settled, and a
  failure alert is shown; the graph is replaced by the new one when generation succeeds.
\<close>

theorem handleGenerate_failure_keeps_graph:
  "graph (handleGenerate_start s) = graph s
   \<and> graph (handleGenerate_settled (Inl err) s) = graph s
   \<and> alerts (handleGenerate_settled (Inl err) s) = alerts s @ [generate_failed_message]
   \<and> graph (handleGenerate_settled (Inr g) s) = g
   \<and> alerts (handleGenerate_settled (Inr g) s) = alerts s
   \<and> (fst (generateOntology env h prompt) = Inl err \<longrightarrow>
        graph (fst (handleGenerate env prompt s h)) = graph s
        \<and> alerts (fst (handleGenerate env prompt s h)) = alerts s @ [generate_failed_message])"
  by (simp add: handleGenerate_start_def handleGenerate_settled_def handleGenerate_def
      split: prod.splits)

theorem handleGenerate_failure_keeps_graph_witness:
  "fst (generateOntology env_no_key live_heap ''cats'') = Inl (Error missing_key_message)
   \<and> graph (fst (handleGenerate env_no_key ''cats''
                   (initial_app\<lparr>graph := \<lparr>nodes = [0, 1], edges = [2]\<rparr>\<rparr>) live_heap))
       = \<lparr>nodes = [0, 1], edges = [2]\<rparr>
   \<and> alerts (fst (handleGenerate env_no_key ''cats''
                   (initial_app\<lparr>graph := \<lparr>nodes = [0, 1], edges = [2]\<rparr>\<rparr>) live_heap))
       = [generate_failed_message]"
proof -
  have fails: "fst (generateOntology env_no_key live_heap ''cats'')
                 = Inl (Error missing_key_message)"
    by (simp add: generateOntology_def apiKey_def env_no_key_def)
  show ?thesis
    using fails handleGenerate_failure_keeps_graph
      [of "initial_app\<lparr>graph := \<lparr>nodes = [0, 1], edges = [2]\<rparr>\<rparr>" "Error missing_key_message"
          _ env_no_key live_heap "''cats''"]
    by (simp add: initial_app_def)
qed

text \<open>
  C10. If the API key is the empty string (the environment variable is empty or unset),
  \<open>generateOntology\<close> rejects with the missing-key message for every prompt, before any
  client is constructed or request issued (no effect at all, the store untouched), and
  does not resolve to a graph.
\<close>

theorem generateOntology_missing_key:
  "apiKey env = [] \<Longrightarrow>
     generateOntology env h prompt = (Inl (Error missing_key_message), [], h)"
  by (simp add: generateOntology_def)

theorem generateOntology_missing_key_witness:
  "apiKey env_no_key = []
   \<and> generateOntology env_no_key live_heap ''cats''
       = (Inl (Error ''API Key is missing. Please check your environment configuration.''),
          [], live_heap)"
proof -
  have key: "apiKey env_no_key = []"
    by (simp add: apiKey_def env_no_key_def)
  show ?thesis
    using key generateOntology_missing_key [OF key, of live_heap "''cats''"]
    by (simp add: missing_key_message_def)
qed

text \<open>
  C5, counterexample. The drag-end handler of a gesture that ends while another drag
  gesture is still in progress (\<open>event.active = 1\<close>) leaves the alpha target at 0.3: it
  does not return to zero on that drag-end.
\<close>

theorem dragended_alpha_target_counterexample:
  "alphaTarget (fst (dragended \<lparr>active = 1, ev_x = 100, ev_y = 100\<rparr> 0
                      (live_sim\<lparr>alphaTarget := 0.3\<rparr>) live_heap)) \<noteq> 0"
  by (simp add: dragended_def Let_def live_sim_def)

text \<open>
  C5, as amended. On drag-start the dragged node is pinned to its current position and,
  when no other drag gesture is active, the alpha target is raised to 0.3 and the
  simulation restarted (otherwise the simulation is left as it is); on every drag-move
  the pin is set to the pointer position; on drag-end the pin fields are set to null and,
  when no other drag gesture is active, the alpha target is set to zero. After the
  release the next tick integrates the node like any unpinned one: its position is the
  force model's position plus the decayed velocity.
\<close>

theorem drag_lifecycle:
  "n_fx (node_of (snd (dragstarted event d sim h)) d) = pin_of (n_x (node_of h d))
   \<and> n_fy (node_of (snd (dragstarted event d sim h)) d) = pin_of (n_y (node_of h d))
   \<and> fst (dragstarted event d sim h)
       = (if active event = 0 then sim\<lparr>alphaTarget := 0.3, running := True\<rparr> else sim)
   \<and> n_fx (node_of (snd (dragged event d sim h)) d) = PinAt (ev_x event)
   \<and> n_fy (node_of (snd (dragged event d sim h)) d) = PinAt (ev_y event)
   \<and> fst (dragged event d sim h) = sim
   \<and> n_fx (node_of (snd (dragended event d sim h)) d) = PinNull
   \<and> n_fy (node_of (snd (dragended event d sim h)) d) = PinNull
   \<and> fst (dragended event d sim h)
       = (if active event = 0 then sim\<lparr>alphaTarget := 0\<rparr> else sim)
   \<and> (distinct (sim_nodes sim) \<and> i < length (sim_nodes sim) \<and> sim_nodes sim ! i = d \<longrightarrow>
        (case dragended event d sim h of (sim1, h1) \<Rightarrow>
         case tick eng sim1 h1 of (sim2, h2) \<Rightarrow>
         case forces eng (alpha sim2) (map (node_of h1) (sim_nodes sim)) i of (x, y, vx, vy) \<Rightarrow>
           n_x (node_of h2 d) = Some (x + vx * velocityDecay eng)
           \<and> n_y (node_of h2 d) = Some (y + vy * velocityDecay eng)))"
proof -
  have handlers:
    "n_fx (node_of (snd (dragstarted event d sim h)) d) = pin_of (n_x (node_of h d))"
    "n_fy (node_of (snd (dragstarted event d sim h)) d) = pin_of (n_y (node_of h d))"
    "fst (dragstarted event d sim h)
       = (if active event = 0 then sim\<lparr>alphaTarget := 0.3, running := True\<rparr> else sim)"
    "n_fx (node_of (snd (dragged event d sim h)) d) = PinAt (ev_x event)"
    "n_fy (node_of (snd (dragged event d sim h)) d) = PinAt (ev_y event)"
    "fst (dragged event d sim h) = sim"
    "n_fx (node_of (snd (dragended event d sim h)) d) = PinNull"
    "n_fy (node_of (snd (dragended event d sim h)) d) = PinNull"
    "fst (dragended event d sim h)
       = (if active event = 0 then sim\<lparr>alphaTarget := 0\<rparr> else sim)"
    by (simp_all add: dragstarted_def dragged_def dragended_def Let_def restart_def
        set_alphaTarget_def)
  have free: "case dragended event d sim h of (sim1, h1) \<Rightarrow>
         case tick eng sim1 h1 of (sim2, h2) \<Rightarrow>
         case forces eng (alpha sim2) (map (node_of h1) (sim_nodes sim)) i of (x, y, vx, vy) \<Rightarrow>
           n_x (node_of h2 d) = Some (x + vx * velocityDecay eng)
           \<and> n_y (node_of h2 d) = Some (y + vy * velocityDecay eng)"
    if dist: "distinct (sim_nodes sim)" and i: "i < length (sim_nodes sim)"
      and d: "sim_nodes sim ! i = d"
  proof -
    obtain sim1 h1 where e: "dragended event d sim h = (sim1, h1)"
      by (cases "dragended event d sim h")
    have s1: "sim_nodes sim1 = sim_nodes sim"
      using e by (auto simp: dragended_def Let_def set_alphaTarget_def split: if_splits)
    have px: "n_fx (node_of h1 d) = PinNull" and py: "n_fy (node_of h1 d) = PinNull"
      using handlers(7,8) e by simp_all
    obtain sim2 h2 where t: "tick eng sim1 h1 = (sim2, h2)" by (cases "tick eng sim1 h1")
    obtain x y vx vy where
      f: "forces eng (alpha sim2) (map (node_of h1) (sim_nodes sim)) i = (x, y, vx, vy)"
      by (cases "forces eng (alpha sim2) (map (node_of h1) (sim_nodes sim)) i")
    have al: "alpha sim2 = alpha sim1 + (alphaTarget sim1 - alpha sim1) * alphaDecay eng"
      using t by (auto simp: tick_def Let_def)
    have "node_of h2 (sim_nodes sim ! i)
        = integrate eng (forces eng (alpha sim2) (map (node_of h1) (sim_nodes sim)) (0 + i))
            (node_of h1 (sim_nodes sim ! i))"
      using t integrate_fold_nth [OF dist i, of eng
          "forces eng (alpha sim2) (map (node_of h1) (sim_nodes sim))" 0 h1]
      by (auto simp: tick_def Let_def s1 al)
    then have "node_of h2 d = integrate eng (x, y, vx, vy) (node_of h1 d)"
      using d f by simp
    then show ?thesis
      using px py by (simp add: e t f integrate_free_x integrate_free_y)
  qed
  show ?thesis
    by (intro conjI impI; (elim conjE)?) (rule handlers free; assumption)+
qed

theorem drag_lifecycle_witness:
  "distinct (sim_nodes live_sim) \<and> 0 < length (sim_nodes live_sim) \<and> sim_nodes live_sim ! 0 = 0
   \<and> n_fx (node_of (snd (dragended drag_to_100 0 live_sim pinned_heap)) 0) = PinNull
   \<and> n_x (node_of (snd (tick demo_engine (fst (dragended drag_to_100 0 live_sim pinned_heap))
                                          (snd (dragended drag_to_100 0 live_sim pinned_heap)))) 0)
       = Some (56 / 5)"
proof -
  have hyp: "distinct (sim_nodes live_sim) \<and> 0 < length (sim_nodes live_sim)
      \<and> sim_nodes live_sim ! 0 = 0"
    by (simp add: live_sim_def)
  have h1: "node_of (snd (dragended drag_to_100 0 live_sim pinned_heap)) 0
      = node_a\<lparr>n_fx := PinNull, n_fy := PinNull\<rparr>"
    by (simp add: dragended_def dragged_def pinned_heap_def Let_def live_heap_def node_of_def
        set_node_def)
  have n: "sim_nodes live_sim = [0, 1]" by (simp add: live_sim_def)
  have f: "forces demo_engine al
             (map (node_of (snd (dragended drag_to_100 0 live_sim pinned_heap))) (sim_nodes live_sim)) 0
           = (10, 20, 2, 2)" for al
    unfolding n by (simp add: h1 demo_engine_def num_def node_a_def)
  have v: "velocityDecay demo_engine = 3 / 5" by (simp add: demo_engine_def)
  from drag_lifecycle [of drag_to_100 0 live_sim pinned_heap 0 demo_engine]
  have "distinct (sim_nodes live_sim) \<and> 0 < length (sim_nodes live_sim)
          \<and> sim_nodes live_sim ! 0 = 0 \<longrightarrow>
        (case dragended drag_to_100 0 live_sim pinned_heap of (sim1, h1) \<Rightarrow>
         case tick demo_engine sim1 h1 of (sim2, h2) \<Rightarrow>
         case forces demo_engine (alpha sim2) (map (node_of h1) (sim_nodes live_sim)) 0 of
           (x, y, vx, vy) \<Rightarrow>
             n_x (node_of h2 0) = Some (x + vx * velocityDecay demo_engine)
             \<and> n_y (node_of h2 0) = Some (y + vy * velocityDecay demo_engine))"
    by (elim conjE)
  from this hyp
  have "case dragended drag_to_100 0 live_sim pinned_heap of (sim1, h1) \<Rightarrow>
        case tick demo_engine sim1 h1 of (sim2, h2) \<Rightarrow>
        case forces demo_engine (alpha sim2) (map (node_of h1) (sim_nodes live_sim)) 0 of
          (x, y, vx, vy) \<Rightarrow>
            n_x (node_of h2 0) = Some (x + vx * velocityDecay demo_engine)
            \<and> n_y (node_of h2 0) = Some (y + vy * velocityDecay demo_engine)"
    by (rule mp)
  then have "n_x (node_of (snd (tick demo_engine
                 (fst (dragended drag_to_100 0 live_sim pinned_heap))
                 (snd (dragended drag_to_100 0 live_sim pinned_heap)))) 0)
       = Some (10 + 2 * velocityDecay demo_engine)"
    by (simp add: split_beta f)
  then show ?thesis
    using hyp by (simp add: v h1)
qed

text \<open>
  C6, counterexample. The drag-move handler has set the pin of node \<open>a\<close> to (100, 100),
  and the simulation has advanced by no tick yet: the node's position is still (10, 20),
  not the pin. The handler writes fx and fy only; the position follows at the next tick.
\<close>

theorem pinned_position_before_tick_counterexample:
  "n_fx (node_of pinned_heap 0) = PinAt 100
   \<and> n_fy (node_of pinned_heap 0) = PinAt 100
   \<and> n_x (node_of (snd (ticks demo_engine 0 live_sim pinned_heap)) 0) = Some 10
   \<and> n_y (node_of (snd (ticks demo_engine 0 live_sim pinned_heap)) 0) = Some 20
   \<and> n_x (node_of (snd (ticks demo_engine 0 live_sim pinned_heap)) 0) \<noteq> Some 100
   \<and> n_y (node_of (snd (ticks demo_engine 0 live_sim pinned_heap)) 0) \<noteq> Some 100"
  by (simp add: pinned_heap_def dragged_def drag_to_100_def Let_def live_heap_def
      node_of_def set_node_def node_a_def)

text \<open>
  C6, as amended. Once a node's pin fields (fx, fy) are set to (x0, y0), as the drag-move
  handler sets them to the pointer position, the node's position is exactly (x0, y0)
  after the next tick and after every further tick, and the pin stays in place, for
  every force model, until the pin is released. Before the first tick the position is
  what it was. The node is one of the simulation's nodes.
\<close>

theorem pinned_position_fixed:
  assumes "d \<in> set (sim_nodes sim)"
    and "n_fx (node_of h d) = PinAt x0" and "n_fy (node_of h d) = PinAt y0"
  shows "n_x (node_of (snd (ticks eng (Suc k) sim h)) d) = Some x0
     \<and> n_y (node_of (snd (ticks eng (Suc k) sim h)) d) = Some y0
     \<and> n_fx (node_of (snd (ticks eng (Suc k) sim h)) d) = PinAt x0
     \<and> n_fy (node_of (snd (ticks eng (Suc k) sim h)) d) = PinAt y0
     \<and> n_x (node_of (snd (ticks eng (Suc k) sim (snd (dragged event d sim h)))) d)
         = Some (ev_x event)
     \<and> n_y (node_of (snd (ticks eng (Suc k) sim (snd (dragged event d sim h)))) d)
         = Some (ev_y event)"
proof -
  have a: "d \<in> set (sim_nodes sim)
      \<or> (n_x (node_of h d) = Some x0 \<and> n_y (node_of h d) = Some y0)"
    using assms(1) by simp
  have dx: "n_fx (node_of (snd (dragged event d sim h)) d) = PinAt (ev_x event)"
    and dy: "n_fy (node_of (snd (dragged event d sim h)) d) = PinAt (ev_y event)"
    by (simp_all add: dragged_def Let_def)
  have b: "d \<in> set (sim_nodes sim)
      \<or> (n_x (node_of (snd (dragged event d sim h)) d) = Some (ev_x event)
          \<and> n_y (node_of (snd (dragged event d sim h)) d) = Some (ev_y event))"
    using assms(1) by simp
  show ?thesis
    using ticks_pinned [OF assms(2,3) a, of eng k] ticks_pinned [OF dx dy b, of eng k]
    by simp
qed

theorem pinned_position_fixed_witness:
  "0 \<in> set (sim_nodes live_sim)
   \<and> n_fx (node_of pinned_heap 0) = PinAt 100 \<and> n_fy (node_of pinned_heap 0) = PinAt 100
   \<and> n_x (node_of pinned_heap 0) = Some 10
   \<and> n_x (node_of (snd (ticks demo_engine (Suc 2) live_sim pinned_heap)) 0) = Some 100
   \<and> n_y (node_of (snd (ticks demo_engine (Suc 2) live_sim pinned_heap)) 0) = Some 100"
proof -
  have m: "0 \<in> set (sim_nodes live_sim)" by (simp add: live_sim_def)
  have p: "n_fx (node_of pinned_heap 0) = PinAt 100" "n_fy (node_of pinned_heap 0) = PinAt 100"
    and x: "n_x (node_of pinned_heap 0) = Some 10"
    by (simp_all add: pinned_heap_def dragged_def drag_to_100_def Let_def live_heap_def
        node_of_def set_node_def node_a_def)
  show ?thesis
    using m p x pinned_position_fixed [OF m p, of demo_engine 2] by simp
qed

text \<open>
  C1, counterexample. The canvas receives the graph with nodes \<open>a\<close>, \<open>b\<close> and the edge
  \<open>e1\<close> from \<open>a\<close> to \<open>b\<close>; the simulation is set up without error. The graph that
  \<open>getGraph\<close> then returns has one edge, and its source and target are the node
  objects at addresses 3 and 4 (the working copy's nodes), not id strings.
\<close>

theorem getGraph_resolved_edge_counterexample:
  "fst fresh_result = None
   \<and> getGraph (fst (snd fresh_result)) = \<lparr>nodes = [3, 4], edges = [5]\<rparr>
   \<and> e_source (edge_of (snd (snd fresh_result)) 5) = Obj 3
   \<and> e_target (edge_of (snd (snd fresh_result)) 5) = Obj 4
   \<and> \<not> is_plain_id (e_source (edge_of (snd (snd fresh_result)) 5))"
  by code_simp

text \<open>
  C1, as amended. The graph returned by \<open>getGraph\<close> holds the working copy's edge
  objects as they are. Once the render effect has set up the simulation, \<open>getGraph\<close>
  returns the working copy, and every edge of it has a node object as source and as
  target, never a plain id string; the node has the id that the endpoint denoted before
  the setup, so that a caller can turn the edge back into plain ids (as handleSave does).
\<close>

theorem getGraph_edges_after_setup:
  assumes "render_effect True eng c h = (None, c', h')"
  shows "getGraph c' = activeGraph c
     \<and> (\<forall>l \<in> set (edges (getGraph c')).
          \<not> is_plain_id (e_source (edge_of h' l)) \<and> \<not> is_plain_id (e_target (edge_of h' l))
          \<and> endpoint_id h' (e_source (edge_of h' l)) = endpoint_id h (e_source (edge_of h l))
          \<and> endpoint_id h' (e_target (edge_of h' l)) = endpoint_id h (e_target (edge_of h l)))"
proof -
  define g where "g = activeGraph c"
  define h1 where "h1 = initialize_nodes eng (nodes g) h"
  define m where "m = nodes_by_id h1 (nodes g)"
  from assms have links: "initialize_links m (edges g) h1 = (None, h')"
    and c': "c' = c\<lparr>simulationRef := Some \<lparr>sim_nodes = nodes g, sim_links = edges g, alpha = 1,
                                          alphaTarget = 0, running = True\<rparr>\<rparr>"
    by (auto simp: render_effect_def Let_def g_def h1_def m_def split: prod.splits option.splits)
  have gg: "getGraph c' = activeGraph c"
    by (simp add: c' getGraph_def g_def)
  note ok = initialize_links_ok [OF links]
  have "node_of h' = node_of h1" using ok by (simp add: node_of_def fun_eq_iff)
  then have ids: "n_id (node_of h' a) = n_id (node_of h a)" for a
    by (simp add: h1_def initialize_nodes_keeps)
  have ids1: "n_id (node_of h1 a) = n_id (node_of h a)" for a
    by (simp add: h1_def initialize_nodes_keeps)
  have "\<not> is_plain_id (e_source (edge_of h' l)) \<and> \<not> is_plain_id (e_target (edge_of h' l))
        \<and> endpoint_id h' (e_source (edge_of h' l)) = endpoint_id h (e_source (edge_of h l))
        \<and> endpoint_id h' (e_target (edge_of h' l)) = endpoint_id h (e_target (edge_of h l))"
    if "l \<in> set (edges g)" for l
  proof -
    from ok that have
      s: "resolve_endpoint m (e_source (edge_of h1 l)) = Inr (e_source (edge_of h' l))" and
      t: "resolve_endpoint m (e_target (edge_of h1 l)) = Inr (e_target (edge_of h' l))"
      by (auto split: if_splits)
    have e1: "edge_of h1 l = edge_of h l" by (simp add: h1_def)
    have "endpoint_id h1 (e_source (edge_of h' l)) = endpoint_id h1 (e_source (edge_of h l))"
      "endpoint_id h1 (e_target (edge_of h' l)) = endpoint_id h1 (e_target (edge_of h l))"
      using s t resolve_endpoint_id unfolding m_def e1 by blast+
    then have "endpoint_id h' (e_source (edge_of h' l)) = endpoint_id h (e_source (edge_of h l))"
      "endpoint_id h' (e_target (edge_of h' l)) = endpoint_id h (e_target (edge_of h l))"
      using endpoint_id_cong [of h' h, OF ids] endpoint_id_cong [of h1 h, OF ids1] by simp_all
    then show ?thesis
      using resolve_endpoint_Obj [OF s] resolve_endpoint_Obj [OF t] by simp
  qed
  then show ?thesis
    using gg by (simp add: g_def)
qed

theorem getGraph_edges_after_setup_witness:
  "render_effect True demo_engine (mount fresh_graph) fresh_heap
     = (None, fst (snd (render_effect True demo_engine (mount fresh_graph) fresh_heap)),
        snd (snd (render_effect True demo_engine (mount fresh_graph) fresh_heap)))
   \<and> getGraph (fst (snd (render_effect True demo_engine (mount fresh_graph) fresh_heap)))
       = fresh_graph
   \<and> endpoint_id (snd (snd (render_effect True demo_engine (mount fresh_graph) fresh_heap)))
        (e_source (edge_of
           (snd (snd (render_effect True demo_engine (mount fresh_graph) fresh_heap))) 2))
       = ''a''
   \<and> \<not> is_plain_id (e_source (edge_of
           (snd (snd (render_effect True demo_engine (mount fresh_graph) fresh_heap))) 2))"
proof -
  have "fst (render_effect True demo_engine (mount fresh_graph) fresh_heap) = None"
    by code_simp
  then have run: "render_effect True demo_engine (mount fresh_graph) fresh_heap
     = (None, fst (snd (render_effect True demo_engine (mount fresh_graph) fresh_heap)),
        snd (snd (render_effect True demo_engine (mount fresh_graph) fresh_heap)))"
    by (metis prod.collapse)
  have e: "endpoint_id fresh_heap (e_source (edge_of fresh_heap 2)) = ''a''"
    by (simp add: fresh_heap_def edge_of_def endpoint_id_def)
  have a: "activeGraph (mount fresh_graph) = fresh_graph" "edges fresh_graph = [2]"
    by (simp_all add: mount_def fresh_graph_def)
  show ?thesis
    using getGraph_edges_after_setup [OF run] run e by (simp add: a)
qed

text \<open>
  C2, counterexample. The canvas simulates the nodes \<open>a\<close> and \<open>b\<close>; the new snapshot
  holds a node \<open>c\<close>, whose id is new, with the position (7, 8). In the reconciled
  working copy \<open>c\<close> has the position (7, 8): it is not left unset.
\<close>

theorem reconcile_new_node_position_counterexample:
  "n_id (node_of edited_heap 4) = ''c''
   \<and> map (\<lambda>a. n_id (node_of edited_heap a)) (sim_nodes live_sim) = [''a'', ''b'']
   \<and> simulationRef live_canvas = Some live_sim
   \<and> nodes (activeGraph (fst (reconcile edited_graph live_canvas edited_heap))) = [6, 7]
   \<and> n_id (node_of (snd (reconcile edited_graph live_canvas edited_heap)) 7) = ''c''
   \<and> n_x (node_of (snd (reconcile edited_graph live_canvas edited_heap)) 7) = Some 7
   \<and> n_y (node_of (snd (reconcile edited_graph live_canvas edited_heap)) 7) = Some 8"
  by code_simp

text \<open>
  C2, as amended. Reconciling a new snapshot produces a deep, independent copy of it:
  every node and edge of the working copy is a new object, and no object that existed
  before is written, so the snapshot is not mutated. Each copied node keeps the
  snapshot's id, label, type, description and pin. If a simulation exists and one of its
  nodes has the same id, x and y are those of that node (the last one with that id), and
  vx and vy are those of that node where it has them, else the snapshot's. If the id is
  new, or no simulation exists, the node is as in the snapshot, with whatever position
  and velocity the snapshot carries. The nodes of the simulation are existing objects.
\<close>

theorem reconcile_deep_copy:
  assumes "reconcile g c h = (c', h')"
    and "\<forall>sim. simulationRef c = Some sim \<longrightarrow> (\<forall>a \<in> set (sim_nodes sim). a < nextAddr h)"
  shows "heap_extends h h'
     \<and> simulationRef c' = simulationRef c
     \<and> nodes (activeGraph c') = [nextAddr h ..< nextAddr h + length (nodes g)]
     \<and> length (edges (activeGraph c')) = length (edges g)
     \<and> (\<forall>j < length (edges g).
           edge_copied h (nextAddr h + length (nodes g)) h' (edges g ! j)
             (edges (activeGraph c') ! j))
     \<and> (\<forall>i < length (nodes g).
           n_id (node_of h' (nodes (activeGraph c') ! i)) = n_id (node_of h (nodes g ! i))
           \<and> n_label (node_of h' (nodes (activeGraph c') ! i)) = n_label (node_of h (nodes g ! i))
           \<and> n_type (node_of h' (nodes (activeGraph c') ! i)) = n_type (node_of h (nodes g ! i))
           \<and> n_description (node_of h' (nodes (activeGraph c') ! i))
               = n_description (node_of h (nodes g ! i))
           \<and> n_fx (node_of h' (nodes (activeGraph c') ! i)) = n_fx (node_of h (nodes g ! i))
           \<and> n_fy (node_of h' (nodes (activeGraph c') ! i)) = n_fy (node_of h (nodes g ! i))
           \<and> (case simulationRef c of
                None \<Rightarrow> node_of h' (nodes (activeGraph c') ! i) = node_of h (nodes g ! i)
              | Some sim \<Rightarrow>
                  (case nodes_by_id h (sim_nodes sim) (n_id (node_of h (nodes g ! i))) of
                     None \<Rightarrow>
                       n_id (node_of h (nodes g ! i))
                         \<notin> (\<lambda>a. n_id (node_of h a)) ` set (sim_nodes sim)
                       \<and> node_of h' (nodes (activeGraph c') ! i) = node_of h (nodes g ! i)
                   | Some ex \<Rightarrow>
                       ex \<in> set (sim_nodes sim)
                       \<and> n_id (node_of h ex) = n_id (node_of h (nodes g ! i))
                       \<and> n_x (node_of h' (nodes (activeGraph c') ! i)) = n_x (node_of h ex)
                       \<and> n_y (node_of h' (nodes (activeGraph c') ! i)) = n_y (node_of h ex)
                       \<and> n_vx (node_of h' (nodes (activeGraph c') ! i))
                           = (case n_vx (node_of h ex) of
                                None \<Rightarrow> n_vx (node_of h (nodes g ! i)) | Some v \<Rightarrow> Some v)
                       \<and> n_vy (node_of h' (nodes (activeGraph c') ! i))
                           = (case n_vy (node_of h ex) of
                                None \<Rightarrow> n_vy (node_of h (nodes g ! i)) | Some v \<Rightarrow> Some v))))"
proof -
  note R = reconcile_spec [OF assms]
  have nd: "node_of h' (nodes (activeGraph c') ! i)
             = (case simulationRef c of
                  None \<Rightarrow> node_of h (nodes g ! i)
                | Some sim \<Rightarrow>
                    (case nodes_by_id h (sim_nodes sim) (n_id (node_of h (nodes g ! i))) of
                       None \<Rightarrow> node_of h (nodes g ! i)
                     | Some ex \<Rightarrow> take_position (node_of h ex) (node_of h (nodes g ! i))))"
    if "i < length (nodes g)" for i
    using R that by blast
  have "n_id (node_of h' (nodes (activeGraph c') ! i)) = n_id (node_of h (nodes g ! i))
           \<and> n_label (node_of h' (nodes (activeGraph c') ! i)) = n_label (node_of h (nodes g ! i))
           \<and> n_type (node_of h' (nodes (activeGraph c') ! i)) = n_type (node_of h (nodes g ! i))
           \<and> n_description (node_of h' (nodes (activeGraph c') ! i))
               = n_description (node_of h (nodes g ! i))
           \<and> n_fx (node_of h' (nodes (activeGraph c') ! i)) = n_fx (node_of h (nodes g ! i))
           \<and> n_fy (node_of h' (nodes (activeGraph c') ! i)) = n_fy (node_of h (nodes g ! i))
           \<and> (case simulationRef c of
                None \<Rightarrow> node_of h' (nodes (activeGraph c') ! i) = node_of h (nodes g ! i)
              | Some sim \<Rightarrow>
                  (case nodes_by_id h (sim_nodes sim) (n_id (node_of h (nodes g ! i))) of
                     None \<Rightarrow>
                       n_id (node_of h (nodes g ! i))
                         \<notin> (\<lambda>a. n_id (node_of h a)) ` set (sim_nodes sim)
                       \<and> node_of h' (nodes (activeGraph c') ! i) = node_of h (nodes g ! i)
                   | Some ex \<Rightarrow>
                       ex \<in> set (sim_nodes sim)
                       \<and> n_id (node_of h ex) = n_id (node_of h (nodes g ! i))
                       \<and> n_x (node_of h' (nodes (activeGraph c') ! i)) = n_x (node_of h ex)
                       \<and> n_y (node_of h' (nodes (activeGraph c') ! i)) = n_y (node_of h ex)
                       \<and> n_vx (node_of h' (nodes (activeGraph c') ! i))
                           = (case n_vx (node_of h ex) of
                                None \<Rightarrow> n_vx (node_of h (nodes g ! i)) | Some v \<Rightarrow> Some v)
                       \<and> n_vy (node_of h' (nodes (activeGraph c') ! i))
                           = (case n_vy (node_of h ex) of
                                None \<Rightarrow> n_vy (node_of h (nodes g ! i)) | Some v \<Rightarrow> Some v)))"
    if i: "i < length (nodes g)" for i
  proof (cases "simulationRef c")
    case None
    then show ?thesis using nd [OF i] by simp
  next
    case (Some sim)
    show ?thesis
    proof (cases "nodes_by_id h (sim_nodes sim) (n_id (node_of h (nodes g ! i)))")
      case None
      have eq: "node_of h' (nodes (activeGraph c') ! i) = node_of h (nodes g ! i)"
        using nd [OF i] by (simp add: Some None)
      have notin: "n_id (node_of h (nodes g ! i))
          \<notin> (\<lambda>a. n_id (node_of h a)) ` set (sim_nodes sim)"
        using None by (simp add: nodes_by_id_None)
      show ?thesis
        unfolding eq using notin by (simp add: Some None)
    next
      case (Some ex)
      have eq: "node_of h' (nodes (activeGraph c') ! i)
          = take_position (node_of h ex) (node_of h (nodes g ! i))"
        using nd [OF i] by (simp add: Some \<open>simulationRef c = Some sim\<close>)
      show ?thesis
        unfolding eq using nodes_by_id_Some [OF Some]
        by (simp add: take_position_fields Some \<open>simulationRef c = Some sim\<close>)
    qed
  qed
  then show ?thesis using R by blast
qed

theorem reconcile_deep_copy_witness:
  "reconcile edited_graph live_canvas edited_heap
     = (fst (reconcile edited_graph live_canvas edited_heap),
        snd (reconcile edited_graph live_canvas edited_heap))
   \<and> simulationRef live_canvas = Some live_sim
   \<and> list_all (\<lambda>a. a < nextAddr edited_heap) (sim_nodes live_sim)
   \<and> nodes (activeGraph (fst (reconcile edited_graph live_canvas edited_heap))) = [6, 7]
   \<and> nodeObj (snd (reconcile edited_graph live_canvas edited_heap)) 3 = nodeObj edited_heap 3
   \<and> edgeObj (snd (reconcile edited_graph live_canvas edited_heap)) 5 = edgeObj edited_heap 5
   \<and> n_x (node_of (snd (reconcile edited_graph live_canvas edited_heap)) 6) = Some 10
   \<and> n_vx (node_of (snd (reconcile edited_graph live_canvas edited_heap)) 6) = Some 1"
proof -
  have run: "reconcile edited_graph live_canvas edited_heap
     = (fst (reconcile edited_graph live_canvas edited_heap),
        snd (reconcile edited_graph live_canvas edited_heap))"
    by simp
  have sim: "simulationRef live_canvas = Some live_sim"
    and bound: "list_all (\<lambda>a. a < nextAddr edited_heap) (sim_nodes live_sim)"
    by (simp_all add: live_canvas_def live_sim_def edited_heap_def)
  have old: "\<forall>sim. simulationRef live_canvas = Some sim \<longrightarrow>
         (\<forall>a \<in> set (sim_nodes sim). a < nextAddr edited_heap)"
    using sim bound by (simp add: list_all_iff)
  have n: "nextAddr edited_heap = 6" "length (nodes edited_graph) = 2"
    by (simp_all add: edited_heap_def edited_graph_def)
  have "[6 ..< 6 + 2] = [6, 7::nat]" by code_simp
  with reconcile_deep_copy [OF run old] have
    ext: "heap_extends edited_heap (snd (reconcile edited_graph live_canvas edited_heap))" and
    ns: "nodes (activeGraph (fst (reconcile edited_graph live_canvas edited_heap))) = [6, 7]"
    unfolding n by simp_all
  from ext have
    "nodeObj (snd (reconcile edited_graph live_canvas edited_heap)) 3 = nodeObj edited_heap 3"
    "edgeObj (snd (reconcile edited_graph live_canvas edited_heap)) 5 = edgeObj edited_heap 5"
    by (simp_all add: heap_extends_def n)
  moreover have
    "n_x (node_of (snd (reconcile edited_graph live_canvas edited_heap)) 6) = Some 10
     \<and> n_vx (node_of (snd (reconcile edited_graph live_canvas edited_heap)) 6) = Some 1"
    by code_simp
  ultimately show ?thesis using sim bound ns by simp
qed

text \<open>
  C3, counterexample. The canvas, simulating \<open>a\<close> and \<open>b\<close>, receives a graph whose edge
  \<open>e2\<close> goes from \<open>a\<close> to the id \<open>z\<close> of no node. The graph is not rejected at the
  boundary: its copy becomes the working copy, and the error is raised later, inside the
  setup of the link force, when the source of \<open>e2\<close> has already been resolved and its
  target has not. No new simulation is registered; the reference keeps the previous one,
  stopped, so that the export accessor pairs the old nodes with the new edges.
\<close>

theorem dangling_edge_accepted_counterexample:
  "e_target (edge_of dangling_heap 5) = Str ''z''
   \<and> map (\<lambda>a. n_id (node_of dangling_heap a)) (nodes edited_graph) = [''a'', ''b'']
   \<and> activeGraph (fst (reconcile edited_graph live_canvas dangling_heap))
       = \<lparr>nodes = [6, 7], edges = [8]\<rparr>
   \<and> fst dangling_result = Some (Error ''node not found: z'')
   \<and> activeGraph (fst (snd dangling_result)) = \<lparr>nodes = [6, 7], edges = [8]\<rparr>
   \<and> e_source (edge_of (snd (snd dangling_result)) 8) = Obj 6
   \<and> e_target (edge_of (snd (snd dangling_result)) 8) = Str ''z''
   \<and> simulationRef (fst (snd dangling_result)) = Some (live_sim\<lparr>running := False\<rparr>)
   \<and> getGraph (fst (snd dangling_result)) = \<lparr>nodes = [0, 1], edges = [8]\<rparr>"
  by code_simp

text \<open>
  C3, as amended. For every graph with an edge whose source or target is an id that no
  node of the graph has: reconciling does not fail and keeps every edge in the working
  copy; the failure arises when the render effect sets up the link force on that working
  copy, as the error "node not found" for an id that no node has; the effect then
  registers no new simulation, and the reference keeps the previous simulation, stopped.
  The nodes of the previous simulation are existing objects.
\<close>

theorem dangling_edge_fails_in_setup:
  assumes old: "\<forall>sim. simulationRef c = Some sim \<longrightarrow> (\<forall>a \<in> set (sim_nodes sim). a < nextAddr h)"
    and l: "l \<in> set (edges g)"
    and s: "e_source (edge_of h l) = Str s \<or> e_target (edge_of h l) = Str s"
    and missing: "s \<notin> (\<lambda>a. n_id (node_of h a)) ` set (nodes g)"
  shows "length (edges (activeGraph (fst (reconcile g c h)))) = length (edges g)
     \<and> (\<exists>s'. s' \<notin> (\<lambda>a. n_id (node_of h a)) ` set (nodes g)
          \<and> fst (receive_graph True eng g c h) = Some (Error (''node not found: '' @ s')))
     \<and> fst (snd (receive_graph True eng g c h)) = effect_cleanup (fst (reconcile g c h))
     \<and> simulationRef (fst (snd (receive_graph True eng g c h)))
         = map_option stop (simulationRef c)"
proof -
  obtain c1 h1 where run: "reconcile g c h = (c1, h1)" by (cases "reconcile g c h")
  note R = reconcile_spec [OF run old]
  define ns where "ns = nodes (activeGraph c1)"
  define es where "es = edges (activeGraph c1)"
  define hA where "hA = initialize_nodes eng ns h1"
  define m where "m = nodes_by_id hA ns"
  have len: "length ns = length (nodes g)" using R by (simp add: ns_def)
  have nid: "n_id (node_of h1 (ns ! i)) = n_id (node_of h (nodes g ! i))"
    if "i < length (nodes g)" for i
  proof -
    from R that have "node_of h1 (ns ! i)
             = (case simulationRef c of
                  None \<Rightarrow> node_of h (nodes g ! i)
                | Some sim \<Rightarrow>
                    (case nodes_by_id h (sim_nodes sim) (n_id (node_of h (nodes g ! i))) of
                       None \<Rightarrow> node_of h (nodes g ! i)
                     | Some ex \<Rightarrow> take_position (node_of h ex) (node_of h (nodes g ! i))))"
      unfolding ns_def by blast
    then show ?thesis
      by (simp add: take_position_fields split: option.splits)
  qed
  have ids: "(\<lambda>a. n_id (node_of hA a)) ` set ns = (\<lambda>a. n_id (node_of h a)) ` set (nodes g)"
  proof -
    have "map (\<lambda>a. n_id (node_of hA a)) ns = map (\<lambda>a. n_id (node_of h a)) (nodes g)"
      by (rule nth_equalityI) (simp_all add: len nid hA_def initialize_nodes_keeps)
    then have "set (map (\<lambda>a. n_id (node_of hA a)) ns)
        = set (map (\<lambda>a. n_id (node_of h a)) (nodes g))" by simp
    then show ?thesis by (simp only: set_map)
  qed
  have none: "m s' = None \<longleftrightarrow> s' \<notin> (\<lambda>a. n_id (node_of h a)) ` set (nodes g)" for s'
    by (simp add: m_def nodes_by_id_None ids)
  from l obtain j where j: "j < length (edges g)" "edges g ! j = l"
    by (auto simp: in_set_conv_nth)
  have elen: "length es = length (edges g)" using R by (simp add: es_def)
  have "edge_copied h (nextAddr h + length (nodes g)) h1 l (es ! j)"
    using R j by (auto simp: es_def)
  from edge_copied_Str [OF this, of s] s
  have "e_source (edge_of h1 (es ! j)) = Str s \<or> e_target (edge_of h1 (es ! j)) = Str s"
    by blast
  then have bad: "e_source (edge_of hA (es ! j)) = Str s \<or> e_target (edge_of hA (es ! j)) = Str s"
    by (simp add: hA_def)
  have mem: "es ! j \<in> set es" using j elen by simp
  have ms: "m s = None" using missing none by simp
  from initialize_links_fails [of "es ! j" es hA s m, OF mem bad ms]
  obtain s' where s': "m s' = None"
    "fst (initialize_links m es hA) = Some (Error (''node not found: '' @ s'))"
    by blast
  obtain h2 where links: "initialize_links m es hA = (Some (Error (''node not found: '' @ s')), h2)"
    using s'(2) by (cases "initialize_links m es hA") simp
  have re: "render_effect True eng (effect_cleanup c1) h1
      = (Some (Error (''node not found: '' @ s')), effect_cleanup c1, h2)"
    using links
    by (simp add: render_effect_def effect_cleanup_def Let_def ns_def [symmetric]
        es_def [symmetric] hA_def [symmetric] m_def [symmetric])
  have rg: "receive_graph True eng g c h
      = (Some (Error (''node not found: '' @ s')), effect_cleanup c1, h2)"
    using re by (simp add: receive_graph_def run)
  have sr: "simulationRef (effect_cleanup c1) = map_option stop (simulationRef c)"
    using R by (simp add: effect_cleanup_def)
  have "s' \<notin> (\<lambda>a. n_id (node_of h a)) ` set (nodes g)" using s'(1) none by simp
  then show ?thesis
    using rg sr elen by (auto simp: run es_def)
qed

theorem dangling_edge_fails_in_setup_witness:
  "simulationRef live_canvas = Some live_sim
   \<and> list_all (\<lambda>a. a < nextAddr dangling_heap) (sim_nodes live_sim)
   \<and> 5 \<in> set (edges edited_graph)
   \<and> e_target (edge_of dangling_heap 5) = Str ''z''
   \<and> ''z'' \<notin> (\<lambda>a. n_id (node_of dangling_heap a)) ` set (nodes edited_graph)
   \<and> length (edges (activeGraph (fst (reconcile edited_graph live_canvas dangling_heap)))) = 1
   \<and> (\<exists>s'. fst (receive_graph True demo_engine edited_graph live_canvas dangling_heap)
              = Some (Error (''node not found: '' @ s')))
   \<and> simulationRef (fst (snd (receive_graph True demo_engine edited_graph live_canvas
                                 dangling_heap)))
       = Some (live_sim\<lparr>running := False\<rparr>)"
proof -
  have sim: "simulationRef live_canvas = Some live_sim"
    and bound: "list_all (\<lambda>a. a < nextAddr dangling_heap) (sim_nodes live_sim)"
    by (simp_all add: live_canvas_def live_sim_def dangling_heap_def)
  have old: "\<forall>sim. simulationRef live_canvas = Some sim \<longrightarrow>
         (\<forall>a \<in> set (sim_nodes sim). a < nextAddr dangling_heap)"
    using sim bound by (simp add: list_all_iff)
  have l: "5 \<in> set (edges edited_graph)" by (simp add: edited_graph_def)
  have t: "e_target (edge_of dangling_heap 5) = Str ''z''"
    by (simp add: dangling_heap_def edge_of_def)
  then have t': "e_source (edge_of dangling_heap 5) = Str ''z''
      \<or> e_target (edge_of dangling_heap 5) = Str ''z''"
    by simp
  have missing: "''z'' \<notin> (\<lambda>a. n_id (node_of dangling_heap a)) ` set (nodes edited_graph)"
    by (simp add: edited_graph_def dangling_heap_def node_of_def fresh_node_def)
  have len: "length (edges edited_graph) = 1" by (simp add: edited_graph_def)
  show ?thesis
    using dangling_edge_fails_in_setup [OF old l t' missing, of demo_engine] sim bound l t missing
    by (auto simp: len stop_def)
qed

end
